theory Spec2Isabelle
  imports Complex_Main "HOL-Library.AList"
begin

section \<open>Device timebase (acquisition/shimmer\_timebase.py)\<close>

text \<open>
  The module keeps one entry per device key in the dictionary \<open>_STATE\<close>:
  the first observed tick, the last raw tick and the ticks accumulated at rollovers.
  The lock around the entry serialises the calls; the model is the sequential function
  on the dictionary. Python integers are unbounded (\<open>int\<close>); the returned float
  is the quotient by the power of two 32768, taken here as a real number.
\<close>

record StateEntry =
  st_start :: "int option"
  st_last :: "int option"
  st_offset :: int

type_synonym tb_state = "string \<rightharpoonup> StateEntry"

definition TICK_RATE_HZ :: real where
  "TICK_RATE_HZ = 32768"

definition COUNTER_MOD :: int where
  "COUNTER_MOD = 65536"

definition fresh_entry :: StateEntry where
  "fresh_entry = \<lparr>st_start = None, st_last = None, st_offset = 0\<rparr>"

text \<open>\<open>reset(key)\<close>: anchor cleared, offset 0.\<close>

definition reset :: "string \<Rightarrow> tb_state \<Rightarrow> tb_state" where
  "reset key S = S(key \<mapsto> fresh_entry)"

text \<open>
  \<open>device_time_s(pkt, key)\<close>, with the raw tick already read from the packet.
  \<open>_STATE.setdefault\<close> creates the entry when the key is new.
\<close>

definition device_time_s :: "int \<Rightarrow> string \<Rightarrow> tb_state \<Rightarrow> real \<times> tb_state" where
  "device_time_s ts_raw key S =
     (let st = (case S key of None \<Rightarrow> fresh_entry | Some e \<Rightarrow> e) in
      case st_start st of
        None \<Rightarrow>
          (let st' = st\<lparr>st_start := Some ts_raw, st_last := Some ts_raw, st_offset := 0\<rparr>;
               total_ticks = 0 + (ts_raw - ts_raw)
           in (real_of_int total_ticks / TICK_RATE_HZ, S(key \<mapsto> st')))
      | Some start0 \<Rightarrow>
          (let off = (case st_last st of
                        Some l \<Rightarrow> if ts_raw < l then st_offset st + COUNTER_MOD else st_offset st
                      | None \<Rightarrow> st_offset st);
               st' = st\<lparr>st_offset := off, st_last := Some ts_raw\<rparr>;
               total_ticks = off + (ts_raw - start0)
           in (real_of_int total_ticks / TICK_RATE_HZ, S(key \<mapsto> st'))))"

text \<open>A sequence of calls \<open>(key, raw tick)\<close>, each paired with the seconds it returned.\<close>

fun run_ticks :: "(string \<times> int) list \<Rightarrow> tb_state \<Rightarrow> (string \<times> real) list" where
  "run_ticks [] S = []"
| "run_ticks ((key, raw) # cs) S =
     (case device_time_s raw key S of (t, S') \<Rightarrow> (key, t) # run_ticks cs S')"






section \<open>Synchronizer (processing/sync\_controller.py)\<close>

text \<open>
  A finite float is the real number it denotes. Arithmetic on floats rounds, so the
  results of the machine's operations are a parameter \<open>fl\<close> of the model, about which
  nothing is assumed; comparison, \<open>floor\<close>, \<open>ceil\<close> and \<open>int()\<close> are exact.
  \<open>time.monotonic()\<close> is an input of every operation that reads the clock (\<open>now\<close>), and
  the configuration dictionary is a parameter. Exceptions are values of \<open>error\<close>; an
  operation returns its result or error together with the state the object is left in.
\<close>

datatype error = ValueError string | RuntimeError string | ZeroDivisionError

text \<open>
  The float operations the source uses: \<open>+\<close>, \<open>-\<close>, \<open>*\<close>, \<open>/\<close>, the conversion of an
  integer, \<open>math.log10\<close>, \<open>10.0 ** n\<close> and the literal \<open>1e-12\<close>.
\<close>

record float_ops =
  fl_add :: "real \<Rightarrow> real \<Rightarrow> real"
  fl_sub :: "real \<Rightarrow> real \<Rightarrow> real"
  fl_mul :: "real \<Rightarrow> real \<Rightarrow> real"
  fl_div :: "real \<Rightarrow> real \<Rightarrow> real"
  fl_of_int :: "int \<Rightarrow> real"
  fl_log10 :: "real \<Rightarrow> real"
  fl_pow10 :: "int \<Rightarrow> real"
  fl_1e_12 :: real

text \<open>
  A float as a value to be written: a finite value (zero is the positive zero), the
  negative zero, or one of the three non-finite values.
\<close>

datatype pyfloat = Fin real | NegZero | NaN | PosInf | NegInf

text \<open>A sample value is \<open>Optional[float]\<close>.\<close>

datatype pyval = PyNone | PyFloat pyfloat

text \<open>
  Tagged payloads (synchronizer to sinks):
  \<open>("sample", k, t_q, device, pairs)\<close>,
  \<open>("event", k, t_q, label, source, current_event_after)\<close>,
  \<open>("spike", k, t_q, label, source)\<close>.
\<close>

datatype payload =
    Sample int real string "(string \<times> pyval) list"
  | Event int real string string string
  | Spike int real string string

text \<open>
  A sink is a \<open>queue.Queue\<close> object, known to the manager by reference. The queue objects
  live in a store indexed by their identity; \<open>put_nowait\<close> raises \<open>Full\<close> on a bounded
  queue that is full, and the manager swallows it.
\<close>

type_synonym qid = nat

record squeue =
  q_maxsize :: int
  q_items :: "payload list"

definition put_nowait :: "payload \<Rightarrow> squeue \<Rightarrow> squeue" where
  "put_nowait p q =
     (if 0 < q_maxsize q \<and> q_maxsize q \<le> int (length (q_items q)) then q
      else q\<lparr>q_items := q_items q @ [p]\<rparr>)"

record DeviceAnchor =
  dev_ts0 :: real
  host_t0 :: real
  epoch :: int
  scale :: real

record config =
  EVENT_KEYMAP :: "(string \<times> string) list"
  PLOT_DECIMATE_HZ :: real

record SyncManager =
  sm_started :: bool
  sm_session_t0 :: "real option"
  sm_delta :: "real option"
  sm_tq_decimals :: int
  sm_anchors :: "string \<rightharpoonup> DeviceAnchor"
  sm_default_event :: string
  sm_current_event :: string
  sm_sinks :: "qid list"
  sm_plot_sinks :: "qid list"
  sm_plot_decimate_dt :: "real option"
  sm_plot_last_bin :: "string \<rightharpoonup> int"
  sm_queues :: "qid \<Rightarrow> squeue"

text \<open>\<open>__init__\<close>; the argument is the store of the queue objects that exist.\<close>

definition SyncManager_init :: "(qid \<Rightarrow> squeue) \<Rightarrow> SyncManager" where
  "SyncManager_init qs =
     \<lparr>sm_started = False, sm_session_t0 = None, sm_delta = None, sm_tq_decimals = 6,
      sm_anchors = Map.empty, sm_default_event = [], sm_current_event = [],
      sm_sinks = [], sm_plot_sinks = [], sm_plot_decimate_dt = None,
      sm_plot_last_bin = Map.empty, sm_queues = qs\<rparr>"

definition add_sink_queue :: "qid \<Rightarrow> SyncManager \<Rightarrow> SyncManager" where
  "add_sink_queue q s = (if q \<notin> set (sm_sinks s) then s\<lparr>sm_sinks := sm_sinks s @ [q]\<rparr> else s)"

definition add_plot_sink_queue :: "qid \<Rightarrow> SyncManager \<Rightarrow> SyncManager" where
  "add_plot_sink_queue q s =
     (if q \<notin> set (sm_plot_sinks s) then s\<lparr>sm_plot_sinks := sm_plot_sinks s @ [q]\<rparr> else s)"

definition remove_sink_queue :: "qid \<Rightarrow> SyncManager \<Rightarrow> SyncManager" where
  "remove_sink_queue q s = s\<lparr>sm_sinks := remove1 q (sm_sinks s)\<rparr>"

text \<open>\<open>int(x)\<close> on a float truncates toward zero.\<close>

definition py_int :: "real \<Rightarrow> int" where
  "py_int x = (if 0 \<le> x then \<lfloor>x\<rfloor> else \<lceil>x\<rceil>)"

definition decimals_from_delta :: "float_ops \<Rightarrow> real \<Rightarrow> int" where
  "decimals_from_delta fl delta =
     (if \<not> 0 < delta then 6
      else let d = - fl_log10 fl delta in max 0 (min 9 (\<lceil>d\<rceil> + 2)))"

definition floor_to_decimals :: "float_ops \<Rightarrow> real \<Rightarrow> int \<Rightarrow> real" where
  "floor_to_decimals fl x decimals =
     (if decimals \<le> 0 then fl_of_int fl \<lfloor>x\<rfloor>
      else let p = fl_pow10 fl decimals
           in fl_div fl (fl_of_int fl \<lfloor>fl_mul fl x p\<rfloor>) p)"

text \<open>\<open>next(iter(ev_map.values()))\<close>, the empty text when the keymap is empty.\<close>

definition first_event :: "config \<Rightarrow> string" where
  "first_event cfg = (case EVENT_KEYMAP cfg of [] \<Rightarrow> [] | kv # _ \<Rightarrow> snd kv)"

definition start_session ::
    "float_ops \<Rightarrow> config \<Rightarrow> real \<Rightarrow> real \<Rightarrow> SyncManager \<Rightarrow> (error + unit) \<times> SyncManager" where
  "start_session fl cfg now delta s =
     (if sm_started s then (Inr (), s)
      else if \<not> 0 < delta
      then (Inl (ValueError ''start_session(delta): delta must be > 0''), s)
      else
        let plot_hz = PLOT_DECIMATE_HZ cfg in
        (Inr (),
         s\<lparr>sm_default_event := first_event cfg,
           sm_current_event := first_event cfg,
           sm_delta := Some delta,
           sm_session_t0 := Some now,
           sm_anchors := Map.empty,
           sm_tq_decimals := decimals_from_delta fl delta,
           sm_plot_decimate_dt := (if 0 < plot_hz then Some (fl_div fl 1 plot_hz) else None),
           sm_plot_last_bin := Map.empty,
           sm_started := True\<rparr>))"

definition stop_session :: "SyncManager \<Rightarrow> SyncManager" where
  "stop_session s =
     (if \<not> sm_started s then s
      else s\<lparr>sm_started := False,
             sm_session_t0 := None,
             sm_delta := None,
             sm_anchors := Map.empty,
             sm_sinks := [],
             sm_plot_sinks := [],
             sm_plot_decimate_dt := None,
             sm_plot_last_bin := Map.empty\<rparr>)"

definition host_rel_now :: "float_ops \<Rightarrow> real \<Rightarrow> SyncManager \<Rightarrow> error + real" where
  "host_rel_now fl now s =
     (case sm_session_t0 s of
        None \<Rightarrow> Inl (RuntimeError ''Session not started'')
      | Some t0 \<Rightarrow> Inr (fl_sub fl now t0))"

definition quantize :: "float_ops \<Rightarrow> real \<Rightarrow> SyncManager \<Rightarrow> error + (int \<times> real)" where
  "quantize fl t_host_est s =
     (case sm_delta s of
        None \<Rightarrow> Inl (RuntimeError ''Delta not set'')
      | Some delta \<Rightarrow>
          if delta = 0 then Inl ZeroDivisionError
          else
            let k = py_int (fl_add fl (fl_div fl t_host_est delta) (1 / 2));
                t_q = fl_mul fl (fl_of_int fl k) delta
            in Inr (k, floor_to_decimals fl t_q (sm_tq_decimals s)))"

text \<open>Putting one payload on every queue of a list of references, in order.\<close>

definition put_all :: "payload \<Rightarrow> qid list \<Rightarrow> (qid \<Rightarrow> squeue) \<Rightarrow> (qid \<Rightarrow> squeue)" where
  "put_all p qs store = fold (\<lambda>q st. st(q := put_nowait p (st q))) qs store"

text \<open>Keep-one-per-bin filter of \<open>_emit_to_plot_sinks\<close>: the surviving pairs and the tracker.\<close>

fun decimate :: "string \<Rightarrow> int \<Rightarrow> (string \<times> pyval) list \<Rightarrow> (string \<rightharpoonup> int)
    \<Rightarrow> (string \<times> pyval) list \<times> (string \<rightharpoonup> int)" where
  "decimate dev bin_idx [] lastbin = ([], lastbin)"
| "decimate dev bin_idx ((ch_name, ch_val) # pairs) lastbin =
     (let key = dev @ ''_'' @ ch_name in
      if lastbin key \<noteq> Some bin_idx
      then (case decimate dev bin_idx pairs (lastbin(key \<mapsto> bin_idx)) of
              (filtered, lb) \<Rightarrow> ((ch_name, ch_val) # filtered, lb))
      else decimate dev bin_idx pairs lastbin)"

definition emit_to_plot_sinks :: "float_ops \<Rightarrow> payload \<Rightarrow> SyncManager \<Rightarrow> SyncManager" where
  "emit_to_plot_sinks fl p s =
     (case p of
        Sample k t_q dev pairs \<Rightarrow>
          (case sm_plot_decimate_dt s of
             None \<Rightarrow> s\<lparr>sm_queues := put_all p (sm_plot_sinks s) (sm_queues s)\<rparr>
           | Some dt \<Rightarrow>
               if dt \<le> 0 then s\<lparr>sm_queues := put_all p (sm_plot_sinks s) (sm_queues s)\<rparr>
               else
                 (case decimate dev (py_int (fl_div fl t_q dt)) pairs (sm_plot_last_bin s) of
                    (filtered, lb) \<Rightarrow>
                      if filtered = [] then s\<lparr>sm_plot_last_bin := lb\<rparr>
                      else s\<lparr>sm_plot_last_bin := lb,
                             sm_queues := put_all (Sample k t_q dev filtered)
                                            (sm_plot_sinks s) (sm_queues s)\<rparr>))
      | _ \<Rightarrow> s\<lparr>sm_queues := put_all p (sm_plot_sinks s) (sm_queues s)\<rparr>)"

definition emit_to_sinks :: "float_ops \<Rightarrow> payload \<Rightarrow> SyncManager \<Rightarrow> SyncManager" where
  "emit_to_sinks fl p s =
     (let s1 = s\<lparr>sm_queues := put_all p (sm_sinks s) (sm_queues s)\<rparr>
      in if sm_plot_sinks s1 \<noteq> [] then emit_to_plot_sinks fl p s1 else s1)"

definition set_event ::
    "float_ops \<Rightarrow> real \<Rightarrow> string \<Rightarrow> string \<Rightarrow> SyncManager
      \<Rightarrow> (error + payload) \<times> SyncManager" where
  "set_event fl now label source s =
     (if source = [] then (Inl (ValueError ''source must be a non-empty string''), s)
      else case host_rel_now fl now s of
        Inl e \<Rightarrow> (Inl e, s)
      | Inr t_now \<Rightarrow>
          (case quantize fl t_now s of
             Inl e \<Rightarrow> (Inl e, s)
           | Inr (k, t_q) \<Rightarrow>
               let s1 = (if label = sm_current_event s
                         then (if sm_current_event s \<noteq> sm_default_event s
                               then s\<lparr>sm_current_event := sm_default_event s\<rparr>
                               else s)
                         else s\<lparr>sm_current_event := label\<rparr>);
                   p = Event k t_q (sm_current_event s1) source (sm_current_event s1)
               in (Inr p, emit_to_sinks fl p s1)))"

definition trigger_spike ::
    "float_ops \<Rightarrow> real \<Rightarrow> string \<Rightarrow> string \<Rightarrow> SyncManager
      \<Rightarrow> (error + payload) \<times> SyncManager" where
  "trigger_spike fl now label source s =
     (if source = [] then (Inl (ValueError ''source must be a non-empty string''), s)
      else case host_rel_now fl now s of
        Inl e \<Rightarrow> (Inl e, s)
      | Inr t_now \<Rightarrow>
          (case quantize fl t_now s of
             Inl e \<Rightarrow> (Inl e, s)
           | Inr (k, t_q) \<Rightarrow>
               let p = Spike k t_q label source
               in (Inr p, emit_to_sinks fl p s)))"

text \<open>
  \<open>_map_to_host\<close> and \<open>_handle_sample_packet\<close>, the consumer's step on one packet
  \<open>(device_ts, device_name, pairs)\<close>. The consumer loop logs and skips an exception: the
  state keeps what was written before it was raised.
\<close>

definition map_to_host ::
    "float_ops \<Rightarrow> real \<Rightarrow> string \<Rightarrow> real \<Rightarrow> SyncManager
      \<Rightarrow> (error + real) \<times> SyncManager" where
  "map_to_host fl now dev device_ts s =
     (case sm_session_t0 s of
        None \<Rightarrow> (Inl (RuntimeError ''Session not started''), s)
      | Some t0 \<Rightarrow>
          let anchor =
                (case sm_anchors s dev of
                   None \<Rightarrow>
                     \<lparr>dev_ts0 = device_ts, host_t0 = fl_sub fl now t0, epoch = 0, scale = 1\<rparr>
                 | Some a \<Rightarrow>
                     if fl_add fl device_ts (fl_1e_12 fl) < dev_ts0 a
                     then a\<lparr>dev_ts0 := device_ts, host_t0 := fl_sub fl now t0,
                            epoch := epoch a + 1\<rparr>
                     else a);
              t_host_est =
                fl_add fl (fl_mul fl (scale anchor) (fl_sub fl device_ts (dev_ts0 anchor)))
                  (host_t0 anchor)
          in (Inr (if 0 \<le> t_host_est then t_host_est else 0),
              s\<lparr>sm_anchors := (sm_anchors s)(dev \<mapsto> anchor)\<rparr>))"

definition handle_sample_packet ::
    "float_ops \<Rightarrow> real \<Rightarrow> real \<times> string \<times> (string \<times> pyval) list \<Rightarrow> SyncManager
      \<Rightarrow> SyncManager" where
  "handle_sample_packet fl now pkt s =
     (case pkt of (device_ts, device_name, pairs) \<Rightarrow>
        (case map_to_host fl now device_name device_ts s of
           (Inl e, s1) \<Rightarrow> s1
         | (Inr t_host_est, s1) \<Rightarrow>
             (case quantize fl t_host_est s1 of
                Inl e \<Rightarrow> s1
              | Inr (k, t_q) \<Rightarrow> emit_to_sinks fl (Sample k t_q device_name pairs) s1)))"

text \<open>The states the public API and the consumer can bring a manager to.\<close>

inductive reachable :: "float_ops \<Rightarrow> SyncManager \<Rightarrow> bool" for fl :: float_ops where
  r_init: "reachable fl (SyncManager_init qs)"
| r_add_sink: "reachable fl s \<Longrightarrow> reachable fl (add_sink_queue q s)"
| r_add_plot_sink: "reachable fl s \<Longrightarrow> reachable fl (add_plot_sink_queue q s)"
| r_remove_sink: "reachable fl s \<Longrightarrow> reachable fl (remove_sink_queue q s)"
| r_start: "reachable fl s \<Longrightarrow> reachable fl (snd (start_session fl cfg now delta s))"
| r_stop: "reachable fl s \<Longrightarrow> reachable fl (stop_session s)"
| r_set_event: "reachable fl s \<Longrightarrow> reachable fl (snd (set_event fl now label source s))"
| r_trigger_spike:
    "reachable fl s \<Longrightarrow> reachable fl (snd (trigger_spike fl now label source s))"
| r_sample: "reachable fl s \<Longrightarrow> reachable fl (handle_sample_packet fl now pkt s)"

text \<open>
  A session is started exactly when its time origin is set, and then the grid step is set
  and positive.
\<close>

definition session_inv :: "SyncManager \<Rightarrow> bool" where
  "session_inv s \<longleftrightarrow>
     (sm_started s \<longleftrightarrow> sm_session_t0 s \<noteq> None) \<and>
     (sm_started s \<longrightarrow> (\<exists>d. sm_delta s = Some d \<and> 0 < d))"

text \<open>
  How many of \<open>n\<close> successive \<open>put_nowait\<close> calls a queue takes: all of them when it is
  unbounded, else as many as it has free slots.
\<close>

definition accepted :: "squeue \<Rightarrow> nat \<Rightarrow> nat" where
  "accepted q n =
     (if q_maxsize q \<le> 0 then n
      else min n (nat (q_maxsize q - int (length (q_items q)))))"

text \<open>
  Inputs of the scenarios: the shipped event keymap, one full-rate sink whose queue is
  unbounded and empty, a 100 Hz grid, and an arithmetic that does not round (the
  scenarios read no number it computes).
\<close>

definition scenario_ops :: float_ops where
  "scenario_ops =
     \<lparr>fl_add = (+), fl_sub = (-), fl_mul = (*), fl_div = (/), fl_of_int = real_of_int,
      fl_log10 = log 10, fl_pow10 = (\<lambda>n. 10 powr real_of_int n), fl_1e_12 = 1 / 10 ^ 12\<rparr>"

definition empty_queue :: squeue where
  "empty_queue = \<lparr>q_maxsize = 0, q_items = []\<rparr>"

definition scenario_cfg :: config where
  "scenario_cfg = \<lparr>EVENT_KEYMAP = [(''0'', ''REST''), (''7'', ''TASK_7''), (''8'', ''TASK_8''),
                                    (''9'', ''TASK_9'')],
                    PLOT_DECIMATE_HZ = 0\<rparr>"

definition scenario_manager :: SyncManager where
  "scenario_manager = add_sink_queue 0 (SyncManager_init (\<lambda>q. empty_queue))"

definition scenario_session :: SyncManager where
  "scenario_session =
     snd (start_session scenario_ops scenario_cfg 0 (1 / 100) scenario_manager)"

text \<open>The sixth field of the event payload a call returned.\<close>

definition current_event_after :: "(error + payload) \<times> SyncManager \<Rightarrow> string option" where
  "current_event_after r =
     (case fst r of Inr (Event k t_q label source cur) \<Rightarrow> Some cur | _ \<Rightarrow> None)"

section \<open>Export sink (export/export\_sink.py)\<close>

text \<open>
  Python's \<open>str(k)\<close> of an integer and \<open>f"{x:.6f}"\<close> of a float: the value the float
  denotes, rounded to six decimals (ties to even), in fixed-point notation, with the sign
  of the float; \<open>nan\<close>, \<open>inf\<close> and \<open>-inf\<close> for the non-finite floats. The arithmetic of
  the lookahead and flush settings and of the clock differences in the loop is read
  without rounding; the properties below hold for every lookahead.
\<close>

definition digit_char :: "nat \<Rightarrow> char" where
  "digit_char d = ''0123456789'' ! d"

fun str_nat :: "nat \<Rightarrow> string" where
  "str_nat n = (if n < 10 then [digit_char n] else str_nat (n div 10) @ [digit_char (n mod 10)])"

declare str_nat.simps [simp del]

definition str_int :: "int \<Rightarrow> string" where
  "str_int k = (if k < 0 then ''-'' @ str_nat (nat (- k)) else str_nat (nat k))"

definition round_half_even :: "real \<Rightarrow> int" where
  "round_half_even y =
     (let f = \<lfloor>y\<rfloor>; r = y - real_of_int f
      in if r < 1 / 2 then f else if 1 / 2 < r then f + 1 else if even f then f else f + 1)"

definition frac6 :: "nat \<Rightarrow> string" where
  "frac6 n = map (\<lambda>i. digit_char ((n div 10 ^ i) mod 10)) [5, 4, 3, 2, 1, 0]"

definition fixed6 :: "real \<Rightarrow> string" where
  "fixed6 x =
     (let n = nat (round_half_even (\<bar>x\<bar> * 10 ^ 6))
      in (if x < 0 then ''-'' else []) @ str_nat (n div 10 ^ 6) @ ''.'' @ frac6 (n mod 10 ^ 6))"

text \<open>\<open>_fmt_val\<close>: \<open>None\<close> is the empty cell, a float is formatted.\<close>

fun fmt_val :: "pyval \<Rightarrow> string" where
  "fmt_val PyNone = []"
| "fmt_val (PyFloat (Fin x)) = fixed6 x"
| "fmt_val (PyFloat NegZero) = ''-0.000000''"
| "fmt_val (PyFloat NaN) = ''nan''"
| "fmt_val (PyFloat PosInf) = ''inf''"
| "fmt_val (PyFloat NegInf) = ''-inf''"

text \<open>
  Fixed-point notation with exactly six decimals: an optional minus sign, the digits of
  the integer part without leading zeros, the point, six digits.
\<close>

definition is_digit :: "char \<Rightarrow> bool" where
  "is_digit c \<longleftrightarrow> c \<in> set ''0123456789''"

definition has_minus :: "string \<Rightarrow> bool" where
  "has_minus s = (case s of [] \<Rightarrow> False | c # r \<Rightarrow> c = CHR ''-'')"

definition is_fixed6 :: "string \<Rightarrow> bool" where
  "is_fixed6 s =
     (let u = (if has_minus s then tl s else s);
          ip = takeWhile is_digit u;
          rest = dropWhile is_digit u
      in ip \<noteq> [] \<and> (length ip = 1 \<or> hd ip \<noteq> CHR ''0'') \<and>
         (case rest of
            [] \<Rightarrow> False
          | c # fp \<Rightarrow> c = CHR ''.'' \<and> length fp = 6 \<and> list_all is_digit fp))"

text \<open>
  Reading a cell in that notation: the value of a digit, of a run of digits, and the
  number of millionths the cell denotes.
\<close>

definition digit_val :: "char \<Rightarrow> nat" where
  "digit_val c = length (takeWhile (\<lambda>d. d \<noteq> c) ''0123456789'')"

definition digits_nat :: "string \<Rightarrow> nat" where
  "digits_nat ds = foldl (\<lambda>n c. 10 * n + digit_val c) 0 ds"

definition cell_micro :: "string \<Rightarrow> int" where
  "cell_micro s =
     (let u = (if has_minus s then tl s else s);
          ip = takeWhile is_digit u;
          fp = drop 1 (dropWhile is_digit u)
      in (if has_minus s then - 1 else 1) * int (digits_nat ip * 10 ^ 6 + digits_nat fp))"

text \<open>
  What the sink writes, in the order of the writes. A data row and a marker row are kept by
  column, with the frame index they were written for; \<open>csv_fields\<close> gives the fields of
  the CSV line, which carry \<open>k\<close> only under \<open>PRINT_K\<close>.
\<close>

datatype out_row =
    SyncedHeader "string list"
  | MarkersHeader "string list"
  | SyncedRow int string "string list" string string
  | MarkerRow int string string string string

fun csv_fields :: "bool \<Rightarrow> out_row \<Rightarrow> string list" where
  "csv_fields print_k (SyncedHeader h) = h"
| "csv_fields print_k (MarkersHeader h) = h"
| "csv_fields print_k (SyncedRow k tq cells spike event) =
     (if print_k then [str_int k] else []) @ [tq] @ cells @ [spike, event]"
| "csv_fields print_k (MarkerRow k tq event spike source) =
     (if print_k then [str_int k] else []) @ [tq, event, spike, source]"

fun is_synced :: "out_row \<Rightarrow> bool" where
  "is_synced (SyncedRow k tq cells spike event) = True"
| "is_synced _ = False"

fun is_sync_marker :: "out_row \<Rightarrow> bool" where
  "is_sync_marker (MarkerRow k tq event spike source) = (source = ''sync'')"
| "is_sync_marker _ = False"

text \<open>The \<open>export\<close> block of the configuration, defaults applied where the source gives one.\<close>

record export_config =
  PRINT_K :: bool
  LOOKAHEAD_STEPS :: "int option"
  LOOKAHEAD_SEC :: "real option"
  FLUSH_PERIOD_SEC :: real
  FLUSH_ROWS :: "int option"
  IDLE_WATERMARK_SEC :: real
  CSV_SIGNAL_ENABLE :: bool
  CSV_MARKER_ENABLE :: bool

text \<open>The keyword arguments of the constructor.\<close>

record sink_args =
  a_delta :: real
  a_known_channels :: "string list"
  a_lookahead_steps :: "int option"
  a_lookahead_sec :: "real option"
  a_flush_period_sec :: "real option"
  a_flush_rows_threshold :: "int option"
  a_idle_watermark_sec :: "real option"

text \<open>
  The sink's state. Dictionaries keyed by the frame index are association lists with
  distinct keys, so that the keys can be listed and sorted; a row is a map from column
  name to cell. The two writers are present or not; \<open>ex_out\<close> is what they have written.
\<close>

record ExportSink =
  ex_thr :: bool
  ex_delta :: real
  ex_k_seen_max :: int
  ex_print_k :: bool
  ex_L :: int
  ex_flush_period :: real
  ex_flush_rows_threshold :: int
  ex_idle_watermark_sec :: real
  ex_last_activity_monotonic :: real
  ex_csv_signal_enabled :: bool
  ex_csv_marker_enabled :: bool
  ex_channels :: "string list"
  ex_header_frozen :: bool
  ex_default_event :: string
  ex_sticky_event :: string
  ex_open_rows :: "(int \<times> (string \<rightharpoonup> string)) list"
  ex_tq_by_k :: "(int \<times> real) list"
  ex_event_changes :: "(int \<times> string) list"
  ex_pending_committed :: int
  ex_last_flush_time :: real
  ex_initial_marker_emitted :: bool
  ex_synced_writer :: bool
  ex_markers_writer :: bool
  ex_out :: "out_row list"

definition lookahead_of :: "export_config \<Rightarrow> sink_args \<Rightarrow> error + int" where
  "lookahead_of ecfg a =
     (case a_lookahead_steps a of
        Some n \<Rightarrow> Inr n
      | None \<Rightarrow>
          (case a_lookahead_sec a of
             Some sec \<Rightarrow>
               if a_delta a = 0 then Inl ZeroDivisionError
               else Inr \<lceil>sec * (1 / a_delta a)\<rceil>
           | None \<Rightarrow>
               (case LOOKAHEAD_SEC ecfg of
                  Some sec \<Rightarrow>
                    if a_delta a = 0 then Inl ZeroDivisionError
                    else Inr \<lceil>sec * (1 / a_delta a)\<rceil>
                | None \<Rightarrow> Inr (case LOOKAHEAD_STEPS ecfg of Some n \<Rightarrow> n | None \<Rightarrow> 3))))"

definition flush_rows_of :: "export_config \<Rightarrow> sink_args \<Rightarrow> real \<Rightarrow> error + int" where
  "flush_rows_of ecfg a flush_period =
     (let raw_rows = (case a_flush_rows_threshold a of
                        Some n \<Rightarrow> n
                      | None \<Rightarrow> (case FLUSH_ROWS ecfg of None \<Rightarrow> 0 | Some n \<Rightarrow> n));
          use_auto = (case a_flush_rows_threshold a of
                        Some n \<Rightarrow> n \<le> 0
                      | None \<Rightarrow> (case FLUSH_ROWS ecfg of None \<Rightarrow> True | Some n \<Rightarrow> n \<le> 0))
      in if use_auto
         then (if a_delta a = 0 then Inl ZeroDivisionError
               else Inr (min 2048 (max 64 (round_half_even (1 / a_delta a * flush_period)))))
         else Inr raw_rows)"

text \<open>\<open>__init__\<close>; \<open>now\<close> is the clock read for the two timestamps.\<close>

definition ExportSink_init ::
    "config \<Rightarrow> export_config \<Rightarrow> sink_args \<Rightarrow> real \<Rightarrow> error + ExportSink" where
  "ExportSink_init cfg ecfg a now =
     (case lookahead_of ecfg a of
        Inl e \<Rightarrow> Inl e
      | Inr L \<Rightarrow>
          let flush_period = (case a_flush_period_sec a of
                                Some p \<Rightarrow> p | None \<Rightarrow> FLUSH_PERIOD_SEC ecfg)
          in case flush_rows_of ecfg a flush_period of
               Inl e \<Rightarrow> Inl e
             | Inr rows \<Rightarrow>
                 Inr \<lparr>ex_thr = False,
                      ex_delta = a_delta a,
                      ex_k_seen_max = - 1,
                      ex_print_k = PRINT_K ecfg,
                      ex_L = L,
                      ex_flush_period = flush_period,
                      ex_flush_rows_threshold = rows,
                      ex_idle_watermark_sec =
                        (case a_idle_watermark_sec a of
                           Some w \<Rightarrow> w | None \<Rightarrow> IDLE_WATERMARK_SEC ecfg),
                      ex_last_activity_monotonic = now,
                      ex_csv_signal_enabled = CSV_SIGNAL_ENABLE ecfg,
                      ex_csv_marker_enabled = CSV_MARKER_ENABLE ecfg,
                      ex_channels = a_known_channels a,
                      ex_header_frozen = (a_known_channels a \<noteq> []),
                      ex_default_event = first_event cfg,
                      ex_sticky_event = first_event cfg,
                      ex_open_rows = [],
                      ex_tq_by_k = [],
                      ex_event_changes = [],
                      ex_pending_committed = 0,
                      ex_last_flush_time = now,
                      ex_initial_marker_emitted = False,
                      ex_synced_writer = False,
                      ex_markers_writer = False,
                      ex_out = []\<rparr>)"

text \<open>
  \<open>start()\<close>: the files are opened, the markers header is written, then the synced header;
  an empty channel list with the signal CSV enabled is fatal, after the markers header.
\<close>

definition start :: "ExportSink \<Rightarrow> (error + unit) \<times> ExportSink" where
  "start s =
     (if ex_thr s then (Inr (), s)
      else
        let s1 = s\<lparr>ex_synced_writer := ex_csv_signal_enabled s,
                   ex_markers_writer := ex_csv_marker_enabled s\<rparr>;
            s2 = (if ex_markers_writer s1
                  then s1\<lparr>ex_out := ex_out s1 @
                          [MarkersHeader ((if ex_print_k s1 then [''k''] else []) @
                             [''t_q'', ''event'', ''spike'', ''source''])]\<rparr>
                  else s1)
        in if ex_synced_writer s2
           then (if ex_channels s2 = []
                 then (Inl (RuntimeError ''ExportSink: no known_channels provided by main''), s2)
                 else (Inr (),
                       s2\<lparr>ex_out := ex_out s2 @
                            [SyncedHeader ((if ex_print_k s2 then [''k''] else []) @ [''t_q''] @
                               ex_channels s2 @ [''spike'', ''event''])],
                          ex_header_frozen := True,
                          ex_thr := True\<rparr>))
           else (Inr (), s2\<lparr>ex_thr := True\<rparr>))"

definition write_synced_header :: "ExportSink \<Rightarrow> ExportSink" where
  "write_synced_header s =
     (if \<not> ex_synced_writer s \<or> ex_header_frozen s then s
      else if ex_channels s = [] then s
      else s\<lparr>ex_out := ex_out s @
                 [SyncedHeader ([''k'', ''t_q''] @ ex_channels s @ [''spike'', ''event''])],
             ex_header_frozen := True\<rparr>)"

definition write_marker ::
    "int \<Rightarrow> real \<Rightarrow> string \<Rightarrow> string \<Rightarrow> string \<Rightarrow> ExportSink \<Rightarrow> ExportSink" where
  "write_marker k t_q event spike source s =
     (if \<not> ex_markers_writer s then s
      else s\<lparr>ex_out := ex_out s @ [MarkerRow k (fmt_val (PyFloat (Fin t_q))) event spike source]\<rparr>)"

text \<open>The row of \<open>k\<close> in the open-row buffer, the empty row when there is none.\<close>

definition row_of :: "(int \<times> (string \<rightharpoonup> string)) list \<Rightarrow> int \<Rightarrow> (string \<rightharpoonup> string)" where
  "row_of rows k = (case map_of rows k of None \<Rightarrow> Map.empty | Some r \<Rightarrow> r)"

definition cell :: "(string \<rightharpoonup> string) \<Rightarrow> string \<Rightarrow> string" where
  "cell row_map col = (case row_map col of None \<Rightarrow> [] | Some v \<Rightarrow> v)"

definition put_pair :: "string list \<Rightarrow> string \<Rightarrow> string \<times> pyval \<Rightarrow> (string \<rightharpoonup> string)
    \<Rightarrow> (string \<rightharpoonup> string)" where
  "put_pair channels dev pair row =
     (let key = dev @ '':'' @ fst pair
      in if key \<notin> set channels then row else row(key \<mapsto> fmt_val (snd pair)))"

definition on_sample ::
    "int \<Rightarrow> real \<Rightarrow> string \<Rightarrow> (string \<times> pyval) list \<Rightarrow> ExportSink \<Rightarrow> ExportSink" where
  "on_sample k t_q dev pairs s =
     (let s1 = s\<lparr>ex_k_seen_max := max (ex_k_seen_max s) k,
                 ex_tq_by_k := AList.update k t_q (ex_tq_by_k s)\<rparr>;
          row = fold (put_pair (ex_channels s1) dev) pairs (row_of (ex_open_rows s1) k);
          s2 = s1\<lparr>ex_open_rows := AList.update k row (ex_open_rows s1)\<rparr>
      in if \<not> ex_header_frozen s2 then write_synced_header s2 else s2)"

definition on_event :: "int \<Rightarrow> real \<Rightarrow> string \<Rightarrow> string \<Rightarrow> ExportSink \<Rightarrow> ExportSink" where
  "on_event k t_q source current_after s =
     write_marker k t_q current_after [] source
       (s\<lparr>ex_event_changes := AList.update k current_after (ex_event_changes s)\<rparr>)"

definition on_spike :: "int \<Rightarrow> real \<Rightarrow> string \<Rightarrow> string \<Rightarrow> ExportSink \<Rightarrow> ExportSink" where
  "on_spike k t_q label source s =
     (let row = (row_of (ex_open_rows s) k)(''spike'' \<mapsto> label);
          s1 = s\<lparr>ex_open_rows := AList.update k row (ex_open_rows s),
                 ex_tq_by_k := AList.update k t_q (ex_tq_by_k s),
                 ex_k_seen_max := max (ex_k_seen_max s) k\<rparr>
      in write_marker k t_q [] label source s1)"

definition on_packet :: "payload \<Rightarrow> ExportSink \<Rightarrow> ExportSink" where
  "on_packet p s =
     (case p of
        Sample k t_q dev pairs \<Rightarrow> on_sample k t_q dev pairs s
      | Event k t_q label source current_after \<Rightarrow> on_event k t_q source current_after s
      | Spike k t_q label source \<Rightarrow> on_spike k t_q label source s)"

text \<open>
  The sticky-event step of \<open>_commit_until\<close> for one \<open>k\<close>: the pending changes with key
  \<open>\<le> k\<close> are applied in ascending order and removed.
\<close>

definition apply_change :: "int \<Rightarrow> ExportSink \<Rightarrow> ExportSink" where
  "apply_change kk s =
     (case map_of (ex_event_changes s) kk of
        None \<Rightarrow> s
      | Some label \<Rightarrow> s\<lparr>ex_sticky_event := label,
                         ex_event_changes := AList.delete kk (ex_event_changes s)\<rparr>)"

definition apply_changes :: "int \<Rightarrow> ExportSink \<Rightarrow> ExportSink" where
  "apply_changes k s =
     (if ex_event_changes s = [] then s
      else let pending = filter (\<lambda>kk. kk \<le> k) (map fst (ex_event_changes s))
           in if pending = [] then s else fold apply_change (sort pending) s)"

text \<open>The body of the loop of \<open>_commit_until\<close> for one \<open>k\<close>.\<close>

definition commit_row :: "int \<Rightarrow> ExportSink \<Rightarrow> ExportSink" where
  "commit_row k s =
     (let t_q = (case map_of (ex_tq_by_k s) k of
                   None \<Rightarrow> real_of_int k * ex_delta s | Some t \<Rightarrow> t);
          s1 = apply_changes k s;
          s2 = (if \<not> ex_initial_marker_emitted s1
                then (write_marker k t_q (ex_sticky_event s1) [] ''sync'' s1)
                       \<lparr>ex_initial_marker_emitted := True\<rparr>
                else s1);
          row_map = row_of (ex_open_rows s2) k;
          s3 = s2\<lparr>ex_open_rows := AList.delete k (ex_open_rows s2)\<rparr>
      in s3\<lparr>ex_out := ex_out s3 @
                [SyncedRow k (fmt_val (PyFloat (Fin t_q)))
                   (map (cell row_map) (ex_channels s3)) (cell row_map ''spike'')
                   (ex_sticky_event s3)],
            ex_tq_by_k := AList.delete k (ex_tq_by_k s3),
            ex_pending_committed := ex_pending_committed s3 + 1\<rparr>)"

definition commit_until :: "int \<Rightarrow> ExportSink \<Rightarrow> ExportSink" where
  "commit_until k_commit s =
     (if \<not> ex_synced_writer s then s
      else if \<not> ex_header_frozen s \<and> ex_channels s = [] then s
      else
        let s0 = (if \<not> ex_header_frozen s then write_synced_header s else s)
        in if ex_open_rows s0 = [] \<and> ex_tq_by_k s0 = [] then s0
           else
             let ks = sort (filter (\<lambda>k. k \<le> k_commit) (map fst (ex_tq_by_k s0)));
                 s1 = fold commit_row ks s0
             in s1\<lparr>ex_event_changes :=
                      filter (\<lambda>kv. \<not> fst kv \<le> k_commit) (ex_event_changes s1)\<rparr>)"

text \<open>
  One iteration of the loop of \<open>_run\<close>: the packet taken from the queue within the timeout,
  if any, and the clock read after the wait. Flushing a file handle changes no content;
  the counters that drive it are kept.
\<close>

definition run_step :: "payload option \<times> real \<Rightarrow> ExportSink \<Rightarrow> ExportSink" where
  "run_step it s =
     (let now = snd it;
          s1 = (case fst it of
                  None \<Rightarrow> s
                | Some p \<Rightarrow> on_packet p (s\<lparr>ex_last_activity_monotonic := now\<rparr>));
          s2 = commit_until (ex_k_seen_max s1 - ex_L s1) s1;
          s3 = (if 0 < ex_idle_watermark_sec s2 \<and>
                   ex_idle_watermark_sec s2 \<le> now - ex_last_activity_monotonic s2
                then (commit_until (ex_k_seen_max s2) s2)\<lparr>ex_last_activity_monotonic := now\<rparr>
                else s2)
      in if ex_flush_period s3 \<le> now - ex_last_flush_time s3 \<or>
            ex_flush_rows_threshold s3 \<le> ex_pending_committed s3
         then s3\<lparr>ex_last_flush_time := now, ex_pending_committed := 0\<rparr>
         else s3)"

definition run_loop :: "(payload option \<times> real) list \<Rightarrow> ExportSink \<Rightarrow> ExportSink" where
  "run_loop its s = fold run_step its s"

text \<open>\<open>stop()\<close>: the consumer has left its loop; final commit, then the files are closed.\<close>

definition stop :: "ExportSink \<Rightarrow> ExportSink" where
  "stop s =
     (if \<not> ex_thr s then s
      else (commit_until (ex_k_seen_max s) (s\<lparr>ex_thr := False\<rparr>))
             \<lparr>ex_synced_writer := False, ex_markers_writer := False\<rparr>)"

text \<open>
  Inputs of the scenarios: an export block with both CSVs and the \<open>k\<close> column enabled, one
  channel \<open>A:x\<close>, a 100 Hz grid, a lookahead of three steps and no idle watermark.
  \<open>scenario_sink\<close> is the sink that construction at clock 0 and \<open>start()\<close> give from
  these inputs: only the two headers are written.
\<close>

definition scenario_ecfg :: export_config where
  "scenario_ecfg =
     \<lparr>PRINT_K = True, LOOKAHEAD_STEPS = None, LOOKAHEAD_SEC = Some (1 / 2),
      FLUSH_PERIOD_SEC = 1 / 4, FLUSH_ROWS = Some 0, IDLE_WATERMARK_SEC = 1,
      CSV_SIGNAL_ENABLE = True, CSV_MARKER_ENABLE = True\<rparr>"

definition scenario_args :: sink_args where
  "scenario_args =
     \<lparr>a_delta = 1 / 100, a_known_channels = [''A:x''], a_lookahead_steps = Some 3,
      a_lookahead_sec = None, a_flush_period_sec = None, a_flush_rows_threshold = None,
      a_idle_watermark_sec = Some 0\<rparr>"

definition scenario_sink :: ExportSink where
  "scenario_sink =
     \<lparr>ex_thr = True, ex_delta = 1 / 100, ex_k_seen_max = - 1, ex_print_k = True, ex_L = 3,
      ex_flush_period = 1 / 4, ex_flush_rows_threshold = 64, ex_idle_watermark_sec = 0,
      ex_last_activity_monotonic = 0, ex_csv_signal_enabled = True,
      ex_csv_marker_enabled = True, ex_channels = [''A:x''], ex_header_frozen = True,
      ex_default_event = ''REST'', ex_sticky_event = ''REST'', ex_open_rows = [],
      ex_tq_by_k = [], ex_event_changes = [], ex_pending_committed = 0,
      ex_last_flush_time = 0, ex_initial_marker_emitted = False, ex_synced_writer = True,
      ex_markers_writer = True,
      ex_out = [MarkersHeader [''k'', ''t_q'', ''event'', ''spike'', ''source''],
                SyncedHeader [''k'', ''t_q'', ''A:x'', ''spike'', ''event'']]\<rparr>"

text \<open>A sample of device \<open>A\<close> with one value for channel \<open>x\<close>, taken from the queue at \<open>now\<close>.\<close>

definition sample_at :: "int \<Rightarrow> real \<Rightarrow> real \<Rightarrow> payload option \<times> real" where
  "sample_at k v now = (Some (Sample k (real_of_int k / 100) ''A'' [(''x'', PyFloat (Fin v))]), now)"

text \<open>The packets of a run, the frame indices of its event payloads and of the others.\<close>

fun payload_k :: "payload \<Rightarrow> int" where
  "payload_k (Sample k t_q dev pairs) = k"
| "payload_k (Event k t_q label source cur) = k"
| "payload_k (Spike k t_q label source) = k"

fun is_event :: "payload \<Rightarrow> bool" where
  "is_event (Event k t_q label source cur) = True"
| "is_event _ = False"

fun payload_source :: "payload \<Rightarrow> string option" where
  "payload_source (Sample k t_q dev pairs) = None"
| "payload_source (Event k t_q label source cur) = Some source"
| "payload_source (Spike k t_q label source) = Some source"

definition packets :: "(payload option \<times> real) list \<Rightarrow> payload list" where
  "packets its = List.map_filter fst its"

definition event_ks :: "(payload option \<times> real) list \<Rightarrow> int list" where
  "event_ks its = map payload_k (filter is_event (packets its))"

definition data_ks :: "(payload option \<times> real) list \<Rightarrow> int list" where
  "data_ks its = map payload_k (filter (\<lambda>p. \<not> is_event p) (packets its))"

definition no_sync_source :: "(payload option \<times> real) list \<Rightarrow> bool" where
  "no_sync_source its \<longleftrightarrow> (\<forall>p \<in> set (packets its). payload_source p \<noteq> Some ''sync'')"

text \<open>The frame indices of the data rows written to the synced CSV, in order.\<close>

fun synced_ks :: "out_row list \<Rightarrow> int list" where
  "synced_ks [] = []"
| "synced_ks (SyncedRow k tq cells spike event # out) = k # synced_ks out"
| "synced_ks (_ # out) = synced_ks out"

text \<open>
  A whole session: construction, \<open>start()\<close>, the iterations of the consumer loop,
  \<open>stop()\<close>. The result is the sink after \<open>stop()\<close>; there is none when construction or
  start raised.
\<close>

definition session ::
    "config \<Rightarrow> export_config \<Rightarrow> sink_args \<Rightarrow> real \<Rightarrow> (payload option \<times> real) list
      \<Rightarrow> ExportSink option" where
  "session cfg ecfg a now its =
     (case ExportSink_init cfg ecfg a now of
        Inl e \<Rightarrow> None
      | Inr si \<Rightarrow>
          (case start si of
             (Inl e, s0) \<Rightarrow> None
           | (Inr u, s0) \<Rightarrow> Some (stop (run_loop its s0))))"

text \<open>
  The log holds the initial marker: one row of source \<open>sync\<close>, directly followed by the
  first data row, of the same frame index, time and event; no data row and no other
  \<open>sync\<close> row anywhere else before it, no \<open>sync\<close> row after it. The event is the default
  \<open>d\<close> when every event index of \<open>EK\<close> lies above the row's index.
\<close>

definition sync_marked :: "int set \<Rightarrow> string \<Rightarrow> out_row list \<Rightarrow> bool" where
  "sync_marked EK d out \<longleftrightarrow>
     (\<exists>pre k tq ev cells spike post.
        out = pre @ [MarkerRow k tq ev [] ''sync'', SyncedRow k tq cells spike ev] @ post \<and>
        (\<forall>r \<in> set pre. \<not> is_synced r \<and> \<not> is_sync_marker r) \<and>
        (\<forall>r \<in> set post. \<not> is_sync_marker r) \<and>
        ((\<forall>k' \<in> EK. k < k') \<longrightarrow> ev = d))"

definition sync_inv :: "int set \<Rightarrow> ExportSink \<Rightarrow> bool" where
  "sync_inv EK s \<longleftrightarrow>
     fst ` set (ex_event_changes s) \<subseteq> EK \<and>
     (if ex_initial_marker_emitted s then sync_marked EK (ex_default_event s) (ex_out s)
      else ex_sticky_event s = ex_default_event s \<and>
           (\<forall>r \<in> set (ex_out s). \<not> is_synced r \<and> \<not> is_sync_marker r))"

definition data_inv :: "int set \<Rightarrow> ExportSink \<Rightarrow> bool" where
  "data_inv DK s \<longleftrightarrow>
     fst ` set (ex_tq_by_k s) \<subseteq> DK \<and> set (synced_ks (ex_out s)) \<subseteq> DK"

text \<open>
  The scenario sink after some iterations, by the fields that change (no flush is due in
  the scenarios): maximal index seen, last activity, open rows, times, pending event
  changes, sticky event, rows since the last flush, initial-marker flag, rows written
  after the headers.
\<close>

definition scenario_state ::
    "int \<Rightarrow> real \<Rightarrow> (int \<times> (string \<rightharpoonup> string)) list \<Rightarrow> (int \<times> real) list
      \<Rightarrow> (int \<times> string) list \<Rightarrow> string \<Rightarrow> int \<Rightarrow> bool \<Rightarrow> out_row list \<Rightarrow> ExportSink" where
  "scenario_state kmax act rows tqs changes sticky pending emitted out =
     scenario_sink\<lparr>ex_k_seen_max := kmax, ex_last_activity_monotonic := act,
       ex_open_rows := rows, ex_tq_by_k := tqs, ex_event_changes := changes,
       ex_sticky_event := sticky, ex_pending_committed := pending,
       ex_initial_marker_emitted := emitted, ex_out := ex_out scenario_sink @ out\<rparr>"

text \<open>The three runs: a late sample, an event between sparse samples, an early event.\<close>

definition late_run :: "(payload option \<times> real) list" where
  "late_run = [sample_at 1 1 (1 / 100), sample_at 5 2 (1 / 20), sample_at 1 9 (3 / 50)]"

definition sparse_run :: "(payload option \<times> real) list" where
  "sparse_run =
     [sample_at 8 1 (2 / 25),
      (Some (Event 9 (9 / 100) ''TASK_8'' ''keyboard'' ''TASK_8''), 9 / 100),
      sample_at 20 2 (1 / 5)]"

definition early_event_run :: "(payload option \<times> real) list" where
  "early_event_run =
     [(Some (Event 0 0 ''TASK_7'' ''keyboard'' ''TASK_7''), 0), sample_at 0 1 (1 / 100)]"

section \<open>Verified properties\<close>

subsection \<open>Properties of the timebase\<close>









text \<open>
  Claim C8, as amended. The entry is anchored on the first tick, which is subtracted from
  every later one: the raw ticks 65530, 65535, 3, 10 of one key give the seconds
  0, 5/32768, 9/32768, 16/32768, strictly increasing.
\<close>

theorem device_time_s_rollover_scenario:
  "map snd (run_ticks [(''default'', 65530), (''default'', 65535), (''default'', 3),
                       (''default'', 10)] Map.empty)
     = [0, 5 / 32768, 9 / 32768, 16 / 32768] \<and>
   sorted_wrt (<) [0, 5 / 32768, 9 / 32768, 16 / (32768::real)]"
  by (simp add: device_time_s_def Let_def fresh_entry_def COUNTER_MOD_def TICK_RATE_HZ_def)

text \<open>
  Claim C8, as stated, fails: the first call returns 0 seconds, not 65530/32768.
\<close>

theorem device_time_s_rollover_counterexample:
  "map snd (run_ticks [(''default'', 65530), (''default'', 65535), (''default'', 3),
                       (''default'', 10)] Map.empty)
     \<noteq> [65530 / 32768, 65535 / 32768, 65539 / 32768, 65546 / 32768]"
  by (simp add: device_time_s_def Let_def fresh_entry_def COUNTER_MOD_def TICK_RATE_HZ_def)

subsection \<open>Properties of the synchronizer\<close>

lemma emit_to_plot_sinks_fields [simp]:
  "sm_started (emit_to_plot_sinks fl p s) = sm_started s"
  "sm_session_t0 (emit_to_plot_sinks fl p s) = sm_session_t0 s"
  "sm_delta (emit_to_plot_sinks fl p s) = sm_delta s"
  "sm_tq_decimals (emit_to_plot_sinks fl p s) = sm_tq_decimals s"
  "sm_default_event (emit_to_plot_sinks fl p s) = sm_default_event s"
  "sm_current_event (emit_to_plot_sinks fl p s) = sm_current_event s"
  "sm_sinks (emit_to_plot_sinks fl p s) = sm_sinks s"
  "sm_plot_sinks (emit_to_plot_sinks fl p s) = sm_plot_sinks s"
  by (cases p; simp add: emit_to_plot_sinks_def split: option.splits prod.splits)+

lemma emit_to_sinks_fields [simp]:
  "sm_started (emit_to_sinks fl p s) = sm_started s"
  "sm_session_t0 (emit_to_sinks fl p s) = sm_session_t0 s"
  "sm_delta (emit_to_sinks fl p s) = sm_delta s"
  "sm_tq_decimals (emit_to_sinks fl p s) = sm_tq_decimals s"
  "sm_default_event (emit_to_sinks fl p s) = sm_default_event s"
  "sm_current_event (emit_to_sinks fl p s) = sm_current_event s"
  "sm_sinks (emit_to_sinks fl p s) = sm_sinks s"
  "sm_plot_sinks (emit_to_sinks fl p s) = sm_plot_sinks s"
  by (simp_all add: emit_to_sinks_def Let_def)

lemma put_all_Nil [simp]: "put_all p [] st = st"
  by (simp add: put_all_def)

text \<open>A marker payload reaches every full-rate sink, then every plot sink, unchanged.\<close>

lemma emit_to_sinks_marker_queues:
  assumes "\<not> (\<exists>k t d ps. p = Sample k t d ps)"
  shows "sm_queues (emit_to_sinks fl p s)
           = put_all p (sm_plot_sinks s) (put_all p (sm_sinks s) (sm_queues s))"
  using assms by (cases p) (auto simp: emit_to_sinks_def emit_to_plot_sinks_def Let_def)

lemma set_event_fields:
  "sm_started (snd (set_event fl now label source s)) = sm_started s"
  "sm_session_t0 (snd (set_event fl now label source s)) = sm_session_t0 s"
  "sm_delta (snd (set_event fl now label source s)) = sm_delta s"
  by (auto simp: set_event_def Let_def split: sum.splits prod.splits)

lemma trigger_spike_fields:
  "sm_started (snd (trigger_spike fl now label source s)) = sm_started s"
  "sm_session_t0 (snd (trigger_spike fl now label source s)) = sm_session_t0 s"
  "sm_delta (snd (trigger_spike fl now label source s)) = sm_delta s"
  by (auto simp: trigger_spike_def Let_def split: sum.splits prod.splits)

lemma handle_sample_packet_fields:
  "sm_started (handle_sample_packet fl now pkt s) = sm_started s"
  "sm_session_t0 (handle_sample_packet fl now pkt s) = sm_session_t0 s"
  "sm_delta (handle_sample_packet fl now pkt s) = sm_delta s"
  by (auto simp: handle_sample_packet_def map_to_host_def quantize_def Let_def
      split: sum.splits prod.splits option.splits if_splits)

lemma reachable_session_inv: "reachable fl s \<Longrightarrow> session_inv s"
proof (induction rule: reachable.induct)
  case (r_init qs)
  then show ?case by (simp add: session_inv_def SyncManager_init_def)
next
  case (r_add_sink s q)
  then show ?case by (simp add: session_inv_def add_sink_queue_def)
next
  case (r_add_plot_sink s q)
  then show ?case by (simp add: session_inv_def add_plot_sink_queue_def)
next
  case (r_remove_sink s q)
  then show ?case by (simp add: session_inv_def remove_sink_queue_def)
next
  case (r_start s cfg now delta)
  then show ?case by (auto simp: session_inv_def start_session_def Let_def)
next
  case (r_stop s)
  then show ?case by (simp add: session_inv_def stop_session_def)
next
  case (r_set_event s now label source)
  then show ?case by (simp add: session_inv_def set_event_fields)
next
  case (r_trigger_spike s now label source)
  then show ?case by (simp add: session_inv_def trigger_spike_fields)
next
  case (r_sample s now pkt)
  then show ?case by (simp add: session_inv_def handle_sample_packet_fields)
qed


lemma reachable_scenario_manager: "reachable fl scenario_manager"
  unfolding scenario_manager_def by (intro reachable.intros)

lemma reachable_scenario_session: "reachable scenario_ops scenario_session"
  unfolding scenario_session_def by (intro reachable.intros reachable_scenario_manager)

lemma scenario_session_started: "sm_started scenario_session"
  by (simp add: scenario_session_def start_session_def Let_def scenario_manager_def
      add_sink_queue_def SyncManager_init_def)


text \<open>What a run of \<open>put_nowait\<close> calls leaves in a queue.\<close>

lemma put_nowait_funpow:
  "q_items ((put_nowait p ^^ n) q) = q_items q @ replicate (accepted q n) p \<and>
   q_maxsize ((put_nowait p ^^ n) q) = q_maxsize q"
proof (induction n)
  case 0
  show ?case by (simp add: accepted_def)
next
  case (Suc n)
  let ?a = "accepted q n"
  have step: "accepted q (Suc n)
      = (if 0 < q_maxsize q \<and> q_maxsize q \<le> int (length (q_items q) + ?a) then ?a
         else Suc ?a)"
    by (auto simp: accepted_def min_def)
  show ?case using Suc step
    by (simp add: put_nowait_def replicate_append_same)
qed

lemma put_all_apply:
  "put_all p qs store q = (put_nowait p ^^ count_list qs q) (store q)"
proof (induction qs arbitrary: store)
  case Nil
  show ?case by (simp add: put_all_def)
next
  case (Cons x qs)
  let ?st = "store(x := put_nowait p (store x))"
  have "put_all p (x # qs) store q = put_all p qs ?st q"
    by (simp add: put_all_def)
  also have "\<dots> = (put_nowait p ^^ count_list qs q) (?st q)"
    by (rule Cons)
  also have "\<dots> = (put_nowait p ^^ count_list (x # qs) q) (store q)"
    by (simp add: funpow_swap1)
  finally show ?case .
qed

lemma put_all_twice_items:
  "q_items (put_all p ps (put_all p qs store) q)
     = q_items (store q) @ replicate (accepted (store q) (count_list qs q + count_list ps q)) p"
proof -
  have "put_all p ps (put_all p qs store) q
          = (put_nowait p ^^ (count_list ps q + count_list qs q)) (store q)"
    by (simp add: put_all_apply funpow_add)
  then show ?thesis
    using put_nowait_funpow [where p = p and q = "store q"
        and n = "count_list ps q + count_list qs q"]
    by (simp add: add.commute)
qed

lemma set_event_started:
  assumes "reachable fl s" "sm_started s" "source \<noteq> []"
  shows "\<exists>k t_q. set_event fl now label source s =
           (let s1 = (if label = sm_current_event s
                      then (if sm_current_event s \<noteq> sm_default_event s
                            then s\<lparr>sm_current_event := sm_default_event s\<rparr>
                            else s)
                      else s\<lparr>sm_current_event := label\<rparr>);
                p = Event k t_q (sm_current_event s1) source (sm_current_event s1)
            in (Inr p, emit_to_sinks fl p s1))"
proof -
  from reachable_session_inv [OF assms(1)] assms(2)
  obtain t0 d where t0: "sm_session_t0 s = Some t0" and d: "sm_delta s = Some d" "0 < d"
    by (auto simp: session_inv_def)
  obtain k t_q where q: "quantize fl (fl_sub fl now t0) s = Inr (k, t_q)"
    using d by (simp add: quantize_def Let_def)
  show ?thesis
    using assms(3) t0 q by (simp add: set_event_def host_rel_now_def Let_def)
qed

lemma set_event_after:
  assumes "reachable fl s" "sm_started s" "source \<noteq> []"
  shows "current_event_after (set_event fl now label source s)
           = Some (if label = sm_current_event s then sm_default_event s else label)"
    and "sm_current_event (snd (set_event fl now label source s))
           = (if label = sm_current_event s then sm_default_event s else label)"
    and "sm_default_event (snd (set_event fl now label source s)) = sm_default_event s"
  using set_event_started [OF assms, of now label]
  by (auto simp: current_event_after_def Let_def)

text \<open>
  Claim C6. In a started session, \<open>set_event(label, source)\<close> with a non-empty source
  returns an event payload \<open>p\<close> and emits it: every queue gets one copy of \<open>p\<close> appended
  to its items for each time it is registered as a sink (full-rate or plot), as far as a
  bounded queue has free slots, so \<open>p\<close> is in every registered queue that had room. The
  sticky event becomes \<open>label\<close> if it differed, returns to the default if \<open>label\<close> was the
  current, non-default event, and the state is unchanged if \<open>label\<close> is the current
  default. From default "REST", two calls with "TASK_7" give \<open>current_event_after\<close>
  "TASK_7", then "REST".
\<close>

theorem set_event_toggle:
  assumes "reachable fl s" "sm_started s" "source \<noteq> []"
  shows "(\<exists>k t_q p s1.
      set_event fl now label source s = (Inr p, emit_to_sinks fl p s1) \<and>
      p = Event k t_q (sm_current_event s1) source (sm_current_event s1) \<and>
      sm_current_event (snd (set_event fl now label source s)) = sm_current_event s1 \<and>
      sm_queues (snd (set_event fl now label source s))
        = put_all p (sm_plot_sinks s) (put_all p (sm_sinks s) (sm_queues s)) \<and>
      (\<forall>q. q_items (sm_queues (snd (set_event fl now label source s)) q)
             = q_items (sm_queues s q) @
               replicate (accepted (sm_queues s q)
                            (count_list (sm_sinks s) q + count_list (sm_plot_sinks s) q)) p) \<and>
      (\<forall>q \<in> set (sm_sinks s) \<union> set (sm_plot_sinks s).
          q_maxsize (sm_queues s q) \<le> 0 \<or>
          int (length (q_items (sm_queues s q))) < q_maxsize (sm_queues s q) \<longrightarrow>
          p \<in> set (q_items (sm_queues (snd (set_event fl now label source s)) q))) \<and>
      (label \<noteq> sm_current_event s \<longrightarrow> s1 = s\<lparr>sm_current_event := label\<rparr>) \<and>
      (label = sm_current_event s \<and> sm_current_event s \<noteq> sm_default_event s \<longrightarrow>
         s1 = s\<lparr>sm_current_event := sm_default_event s\<rparr>) \<and>
      (label = sm_current_event s \<and> sm_current_event s = sm_default_event s \<longrightarrow> s1 = s)) \<and>
    (sm_default_event s = ''REST'' \<and> sm_current_event s = ''REST'' \<longrightarrow>
       current_event_after (set_event fl now ''TASK_7'' ''keyboard'' s) = Some ''TASK_7'' \<and>
       current_event_after
         (set_event fl now2 ''TASK_7'' ''keyboard''
            (snd (set_event fl now ''TASK_7'' ''keyboard'' s)))
         = Some ''REST'')"
proof
  obtain k t_q where r0: "set_event fl now label source s =
           (let s1 = (if label = sm_current_event s
                      then (if sm_current_event s \<noteq> sm_default_event s
                            then s\<lparr>sm_current_event := sm_default_event s\<rparr>
                            else s)
                      else s\<lparr>sm_current_event := label\<rparr>);
                p = Event k t_q (sm_current_event s1) source (sm_current_event s1)
            in (Inr p, emit_to_sinks fl p s1))"
    using set_event_started [OF assms, of now label] by blast
  define s1 where "s1 = (if label = sm_current_event s
                         then (if sm_current_event s \<noteq> sm_default_event s
                               then s\<lparr>sm_current_event := sm_default_event s\<rparr>
                               else s)
                         else s\<lparr>sm_current_event := label\<rparr>)"
  define p where "p = Event k t_q (sm_current_event s1) source (sm_current_event s1)"
  let ?s' = "snd (set_event fl now label source s)"
  have r: "set_event fl now label source s = (Inr p, emit_to_sinks fl p s1)"
    using r0 by (simp add: Let_def s1_def p_def)
  have sinks: "sm_sinks s1 = sm_sinks s" "sm_plot_sinks s1 = sm_plot_sinks s"
    "sm_queues s1 = sm_queues s"
    by (simp_all add: s1_def)
  have qs: "sm_queues ?s' = put_all p (sm_plot_sinks s) (put_all p (sm_sinks s) (sm_queues s))"
    using emit_to_sinks_marker_queues [of p fl s1] sinks r by (simp add: p_def)
  have items: "q_items (sm_queues ?s' q)
      = q_items (sm_queues s q) @
        replicate (accepted (sm_queues s q)
                     (count_list (sm_sinks s) q + count_list (sm_plot_sinks s) q)) p" for q
    unfolding qs by (rule put_all_twice_items)
  have room: "p \<in> set (q_items (sm_queues ?s' q))"
    if q: "q \<in> set (sm_sinks s) \<union> set (sm_plot_sinks s)"
      and free: "q_maxsize (sm_queues s q) \<le> 0 \<or>
        int (length (q_items (sm_queues s q))) < q_maxsize (sm_queues s q)" for q
  proof -
    have "count_list (sm_sinks s) q \<noteq> 0 \<or> count_list (sm_plot_sinks s) q \<noteq> 0"
      using q by (auto simp: count_list_0_iff)
    then have "0 < count_list (sm_sinks s) q + count_list (sm_plot_sinks s) q"
      by auto
    then have "0 < accepted (sm_queues s q)
                     (count_list (sm_sinks s) q + count_list (sm_plot_sinks s) q)"
      using free by (auto simp: accepted_def)
    then show ?thesis unfolding items by simp
  qed
  have cur: "sm_current_event ?s' = sm_current_event s1"
    using r by simp
  have cases: "(label \<noteq> sm_current_event s \<longrightarrow> s1 = s\<lparr>sm_current_event := label\<rparr>) \<and>
      (label = sm_current_event s \<and> sm_current_event s \<noteq> sm_default_event s \<longrightarrow>
         s1 = s\<lparr>sm_current_event := sm_default_event s\<rparr>) \<and>
      (label = sm_current_event s \<and> sm_current_event s = sm_default_event s \<longrightarrow> s1 = s)"
    by (simp add: s1_def)
  show "\<exists>k t_q p s1.
      set_event fl now label source s = (Inr p, emit_to_sinks fl p s1) \<and>
      p = Event k t_q (sm_current_event s1) source (sm_current_event s1) \<and>
      sm_current_event (snd (set_event fl now label source s)) = sm_current_event s1 \<and>
      sm_queues (snd (set_event fl now label source s))
        = put_all p (sm_plot_sinks s) (put_all p (sm_sinks s) (sm_queues s)) \<and>
      (\<forall>q. q_items (sm_queues (snd (set_event fl now label source s)) q)
             = q_items (sm_queues s q) @
               replicate (accepted (sm_queues s q)
                            (count_list (sm_sinks s) q + count_list (sm_plot_sinks s) q)) p) \<and>
      (\<forall>q \<in> set (sm_sinks s) \<union> set (sm_plot_sinks s).
          q_maxsize (sm_queues s q) \<le> 0 \<or>
          int (length (q_items (sm_queues s q))) < q_maxsize (sm_queues s q) \<longrightarrow>
          p \<in> set (q_items (sm_queues (snd (set_event fl now label source s)) q))) \<and>
      (label \<noteq> sm_current_event s \<longrightarrow> s1 = s\<lparr>sm_current_event := label\<rparr>) \<and>
      (label = sm_current_event s \<and> sm_current_event s \<noteq> sm_default_event s \<longrightarrow>
         s1 = s\<lparr>sm_current_event := sm_default_event s\<rparr>) \<and>
      (label = sm_current_event s \<and> sm_current_event s = sm_default_event s \<longrightarrow> s1 = s)"
    apply (rule exI [of _ k], rule exI [of _ t_q], rule exI [of _ p], rule exI [of _ s1])
    using r p_def cur qs items room cases by blast
next
  let ?s' = "snd (set_event fl now ''TASK_7'' ''keyboard'' s)"
  have kb: "''keyboard'' \<noteq> []" by simp
  have r': "reachable fl ?s'" by (intro reachable.intros assms(1))
  have st': "sm_started ?s'" using assms(2) by (simp add: set_event_fields)
  show "sm_default_event s = ''REST'' \<and> sm_current_event s = ''REST'' \<longrightarrow>
       current_event_after (set_event fl now ''TASK_7'' ''keyboard'' s) = Some ''TASK_7'' \<and>
       current_event_after (set_event fl now2 ''TASK_7'' ''keyboard'' ?s') = Some ''REST''"
    using set_event_after [OF assms(1,2) kb, of now "''TASK_7''"]
      set_event_after(1) [OF r' st' kb, of now2 "''TASK_7''"]
    by simp
qed

theorem set_event_toggle_witness:
  "reachable scenario_ops scenario_session \<and> sm_started scenario_session \<and>
   ''keyboard'' \<noteq> [] \<and>
   sm_default_event scenario_session = ''REST'' \<and>
   sm_current_event scenario_session = ''REST'' \<and>
   sm_sinks scenario_session = [0] \<and>
   q_items (sm_queues scenario_session 0) = [] \<and>
   (\<exists>p. fst (set_event scenario_ops 1 ''TASK_7'' ''keyboard'' scenario_session) = Inr p \<and>
        q_items (sm_queues
          (snd (set_event scenario_ops 1 ''TASK_7'' ''keyboard'' scenario_session)) 0) = [p]) \<and>
   current_event_after (set_event scenario_ops 1 ''TASK_7'' ''keyboard'' scenario_session)
     = Some ''TASK_7'' \<and>
   current_event_after
     (set_event scenario_ops 2 ''TASK_7'' ''keyboard''
        (snd (set_event scenario_ops 1 ''TASK_7'' ''keyboard'' scenario_session)))
     = Some ''REST''"
proof -
  let ?r = "set_event scenario_ops 1 ''TASK_7'' ''keyboard'' scenario_session"
  have kb: "''keyboard'' \<noteq> []" by simp
  have ev: "sm_default_event scenario_session = ''REST''"
    "sm_current_event scenario_session = ''REST''"
    by (simp_all add: scenario_session_def start_session_def Let_def scenario_manager_def
        add_sink_queue_def SyncManager_init_def first_event_def scenario_cfg_def)
  have q0: "sm_sinks scenario_session = [0]" "sm_plot_sinks scenario_session = []"
    "q_items (sm_queues scenario_session 0) = []"
    "q_maxsize (sm_queues scenario_session 0) = 0"
    by (simp_all add: scenario_session_def start_session_def Let_def scenario_manager_def
        add_sink_queue_def SyncManager_init_def empty_queue_def)
  note inst = set_event_toggle [OF reachable_scenario_session scenario_session_started kb,
      of 1 "''TASK_7''" 2]
  from inst obtain p where p: "fst ?r = Inr p"
    "q_items (sm_queues (snd ?r) 0)
       = q_items (sm_queues scenario_session 0) @
         replicate (accepted (sm_queues scenario_session 0)
                      (count_list (sm_sinks scenario_session) 0 +
                       count_list (sm_plot_sinks scenario_session) 0)) p"
    by force
  have "q_items (sm_queues (snd ?r) 0) = [p]"
    using p(2) q0 by (simp add: accepted_def)
  then have e: "\<exists>p. fst ?r = Inr p \<and> q_items (sm_queues (snd ?r) 0) = [p]"
    using p(1) by blast
  show ?thesis
    using inst e reachable_scenario_session scenario_session_started ev q0 by simp
qed

subsection \<open>Properties of the export sink\<close>

lemma str_nat_small: "n < 10 \<Longrightarrow> str_nat n = [digit_char n]"
  by (simp add: str_nat.simps)

lemma str_nat_large: "10 \<le> n \<Longrightarrow> str_nat n = str_nat (n div 10) @ [digit_char (n mod 10)]"
  by (subst str_nat.simps) simp

lemmas fmt_eval = fixed6_def round_half_even_def frac6_def digit_char_def str_nat_small
  str_nat_large str_int_def

lemma fixed6_vals:
  "fixed6 0 = ''0.000000''"
  "fixed6 1 = ''1.000000''"
  "fixed6 2 = ''2.000000''"
  "fixed6 9 = ''9.000000''"
  "fixed6 (1 / 100) = ''0.010000''"
  "fixed6 (1 / 20) = ''0.050000''"
  "fixed6 (2 / 25) = ''0.080000''"
  "fixed6 (9 / 100) = ''0.090000''"
  "fixed6 (1 / 5) = ''0.200000''"
  by (simp_all add: fmt_eval Let_def)

lemma is_digit_digit_char: "d < 10 \<Longrightarrow> is_digit (digit_char d)"
proof -
  assume "d < 10"
  then have "d \<in> {0, 1, 2, 3, 4, 5, 6, 7, 8, 9}" by auto
  then show ?thesis by (auto simp: is_digit_def digit_char_def)
qed

lemma digit_val_digit_char: "d < 10 \<Longrightarrow> digit_val (digit_char d) = d"
proof -
  assume "d < 10"
  then have "d \<in> {0, 1, 2, 3, 4, 5, 6, 7, 8, 9}" by auto
  then show ?thesis by (auto simp: digit_val_def digit_char_def)
qed

lemma digit_char_nonzero: "0 < d \<Longrightarrow> d < 10 \<Longrightarrow> digit_char d \<noteq> CHR ''0''"
proof -
  assume "0 < d" "d < 10"
  then have "d \<in> {1, 2, 3, 4, 5, 6, 7, 8, 9}" by auto
  then show ?thesis by (auto simp: digit_char_def)
qed

lemma str_nat_digits: "str_nat n \<noteq> [] \<and> list_all is_digit (str_nat n)"
proof (induction n rule: str_nat.induct)
  case (1 n)
  show ?case
  proof (cases "n < 10")
    case True
    then show ?thesis by (simp add: str_nat_small is_digit_digit_char)
  next
    case False
    then have "list_all is_digit (str_nat (n div 10))" using 1 by simp
    then show ?thesis using False
      by (simp add: str_nat_large is_digit_digit_char)
  qed
qed

lemma str_nat_hd: "0 < n \<Longrightarrow> hd (str_nat n) \<noteq> CHR ''0''"
proof (induction n rule: str_nat.induct)
  case (1 n)
  show ?case
  proof (cases "n < 10")
    case True
    then show ?thesis using "1.prems" by (simp add: str_nat_small digit_char_nonzero)
  next
    case False
    then have "0 < n div 10" by simp
    then have "hd (str_nat (n div 10)) \<noteq> CHR ''0''" using False 1 by simp
    then show ?thesis using False str_nat_digits [of "n div 10"]
      by (simp add: str_nat_large)
  qed
qed

lemma str_nat_no_leading_zero: "length (str_nat n) = 1 \<or> hd (str_nat n) \<noteq> CHR ''0''"
proof (cases "n < 10")
  case True
  then show ?thesis by (simp add: str_nat_small)
next
  case False
  then show ?thesis using str_nat_hd [of n] by simp
qed

lemma digits_nat_snoc: "digits_nat (ds @ [c]) = 10 * digits_nat ds + digit_val c"
  by (simp add: digits_nat_def)

lemma digits_nat_str_nat: "digits_nat (str_nat n) = n"
proof (induction n rule: str_nat.induct)
  case (1 n)
  show ?case
  proof (cases "n < 10")
    case True
    then show ?thesis by (simp add: str_nat_small digits_nat_def digit_val_digit_char)
  next
    case False
    then have "digits_nat (str_nat (n div 10)) = n div 10" using 1 by simp
    then show ?thesis using False
      by (simp add: str_nat_large digits_nat_snoc digit_val_digit_char)
  qed
qed

lemma frac6_digits: "length (frac6 n) = 6 \<and> list_all is_digit (frac6 n)"
  by (simp add: frac6_def is_digit_digit_char)

lemma digits_nat_frac6:
  assumes "m < 10 ^ 6"
  shows "digits_nat (frac6 m) = m"
proof -
  have s: "m mod (10 ^ k * 10) = 10 ^ k * (m div 10 ^ k mod 10) + m mod 10 ^ k" for k :: nat
    by (rule mod_mult2_eq)
  have "m = m mod (10 ^ 5 * 10)" using assms by simp
  also have "\<dots> = 10 ^ 5 * (m div 10 ^ 5 mod 10) + m mod (10 ^ 4 * 10)"
    by (subst s) simp
  also have "m mod (10 ^ 4 * 10) = 10 ^ 4 * (m div 10 ^ 4 mod 10) + m mod (10 ^ 3 * 10)"
    by (subst s) simp
  also have "m mod (10 ^ 3 * 10) = 10 ^ 3 * (m div 10 ^ 3 mod 10) + m mod (10 ^ 2 * 10)"
    by (subst s) simp
  also have "m mod (10 ^ 2 * 10) = 10 ^ 2 * (m div 10 ^ 2 mod 10) + m mod (10 ^ 1 * 10)"
    by (subst s) simp
  also have "m mod (10 ^ 1 * 10) = 10 ^ 1 * (m div 10 ^ 1 mod 10) + m mod 10"
    by (subst s) simp
  finally have m: "m = 10 ^ 5 * (m div 10 ^ 5 mod 10) + (10 ^ 4 * (m div 10 ^ 4 mod 10) +
      (10 ^ 3 * (m div 10 ^ 3 mod 10) + (10 ^ 2 * (m div 10 ^ 2 mod 10) +
      (10 ^ 1 * (m div 10 ^ 1 mod 10) + m mod 10))))" .
  have "digits_nat (frac6 m) = 10 ^ 5 * (m div 10 ^ 5 mod 10) + (10 ^ 4 * (m div 10 ^ 4 mod 10) +
      (10 ^ 3 * (m div 10 ^ 3 mod 10) + (10 ^ 2 * (m div 10 ^ 2 mod 10) +
      (10 ^ 1 * (m div 10 ^ 1 mod 10) + m mod 10))))"
    by (simp add: frac6_def digits_nat_def digit_val_digit_char)
  then show ?thesis using m by simp
qed

lemma takeWhile_digits:
  assumes "list_all is_digit ip"
  shows "takeWhile is_digit (ip @ CHR ''.'' # fp) = ip"
    and "dropWhile is_digit (ip @ CHR ''.'' # fp) = CHR ''.'' # fp"
  using assms by (induction ip) (simp_all add: is_digit_def)

text \<open>A sign, digits, the point and six digits: the notation, and what it reads as.\<close>

lemma fixed6_shape:
  assumes "ip \<noteq> []" "list_all is_digit ip" "length ip = 1 \<or> hd ip \<noteq> CHR ''0''"
    "length fp = 6" "list_all is_digit fp"
  shows "is_fixed6 (ip @ CHR ''.'' # fp)" and "is_fixed6 (CHR ''-'' # ip @ CHR ''.'' # fp)"
    and "\<not> has_minus (ip @ CHR ''.'' # fp)" and "has_minus (CHR ''-'' # ip @ CHR ''.'' # fp)"
    and "cell_micro (ip @ CHR ''.'' # fp) = int (digits_nat ip * 10 ^ 6 + digits_nat fp)"
    and "cell_micro (CHR ''-'' # ip @ CHR ''.'' # fp)
           = - int (digits_nat ip * 10 ^ 6 + digits_nat fp)"
proof -
  obtain c r where ip: "ip = c # r" using assms(1) by (cases ip) auto
  have c: "c \<noteq> CHR ''-''" using assms(2) ip by (auto simp: is_digit_def)
  show nm: "\<not> has_minus (ip @ CHR ''.'' # fp)" using c ip by (simp add: has_minus_def)
  show hm: "has_minus (CHR ''-'' # ip @ CHR ''.'' # fp)" by (simp add: has_minus_def)
  note tw = takeWhile_digits [OF assms(2), of fp]
  show "is_fixed6 (ip @ CHR ''.'' # fp)"
    using assms tw nm
    by (simp add: is_fixed6_def Let_def del: takeWhile.simps dropWhile.simps
        takeWhile_append dropWhile_append)
  show "is_fixed6 (CHR ''-'' # ip @ CHR ''.'' # fp)"
    using assms tw hm
    by (simp add: is_fixed6_def Let_def del: takeWhile.simps dropWhile.simps
        takeWhile_append dropWhile_append)
  show "cell_micro (ip @ CHR ''.'' # fp) = int (digits_nat ip * 10 ^ 6 + digits_nat fp)"
    using tw nm
    by (simp add: cell_micro_def Let_def del: takeWhile.simps dropWhile.simps
        takeWhile_append dropWhile_append)
  show "cell_micro (CHR ''-'' # ip @ CHR ''.'' # fp)
          = - int (digits_nat ip * 10 ^ 6 + digits_nat fp)"
    using tw hm
    by (simp add: cell_micro_def Let_def del: takeWhile.simps dropWhile.simps
        takeWhile_append dropWhile_append)
qed

lemma round_half_even_nearest:
  "\<bar>real_of_int (round_half_even y) - y\<bar> \<le> 1 / 2"
  "\<bar>real_of_int (round_half_even y) - y\<bar> = 1 / 2 \<Longrightarrow> even (round_half_even y)"
  "0 \<le> y \<Longrightarrow> 0 \<le> round_half_even y"
proof -
  have f: "real_of_int \<lfloor>y\<rfloor> \<le> y" "y < real_of_int \<lfloor>y\<rfloor> + 1" by linarith+
  show "\<bar>real_of_int (round_half_even y) - y\<bar> \<le> 1 / 2"
    using f by (auto simp: round_half_even_def Let_def)
  show "even (round_half_even y)" if "\<bar>real_of_int (round_half_even y) - y\<bar> = 1 / 2"
    using that f by (auto simp: round_half_even_def Let_def split: if_splits)
  show "0 \<le> round_half_even y" if "0 \<le> y"
  proof -
    have "0 \<le> \<lfloor>y\<rfloor>" using that by simp
    then show ?thesis by (auto simp: round_half_even_def Let_def)
  qed
qed

lemma fixed6_reads:
  "is_fixed6 (fixed6 x)"
  "has_minus (fixed6 x) \<longleftrightarrow> x < 0"
  "cell_micro (fixed6 x)
     = (if x < 0 then - 1 else 1) * round_half_even (\<bar>x\<bar> * 10 ^ 6)"
proof -
  define n where "n = nat (round_half_even (\<bar>x\<bar> * 10 ^ 6))"
  define ip where "ip = str_nat (n div 10 ^ 6)"
  define fp where "fp = frac6 (n mod 10 ^ 6)"
  have n: "int n = round_half_even (\<bar>x\<bar> * 10 ^ 6)"
    unfolding n_def using round_half_even_nearest(3) [of "\<bar>x\<bar> * 10 ^ 6"] by simp
  have "digits_nat ip * 10 ^ 6 + digits_nat fp = n"
    unfolding ip_def fp_def by (simp add: digits_nat_str_nat digits_nat_frac6)
  then have val: "int (digits_nat ip * 10 ^ 6 + digits_nat fp)
      = round_half_even (\<bar>x\<bar> * 10 ^ 6)"
    using n by (simp only:)
  have d: "ip \<noteq> []" "list_all is_digit ip" "length ip = 1 \<or> hd ip \<noteq> CHR ''0''"
    "length fp = 6" "list_all is_digit fp"
    unfolding ip_def fp_def
    using str_nat_digits [of "n div 10 ^ 6"] str_nat_no_leading_zero [of "n div 10 ^ 6"]
      frac6_digits [of "n mod 10 ^ 6"] by blast+
  note sh = fixed6_shape [OF d]
  have neg: "fixed6 x = CHR ''-'' # ip @ CHR ''.'' # fp" if "x < 0"
    using that unfolding ip_def fp_def n_def by (simp add: fixed6_def Let_def)
  have pos: "fixed6 x = ip @ CHR ''.'' # fp" if "\<not> x < 0"
    using that unfolding ip_def fp_def n_def by (simp add: fixed6_def Let_def)
  show "is_fixed6 (fixed6 x)"
  proof (cases "x < 0")
    case True
    show ?thesis unfolding neg [OF True] by (rule sh(2))
  next
    case False
    show ?thesis unfolding pos [OF False] by (rule sh(1))
  qed
  show "has_minus (fixed6 x) \<longleftrightarrow> x < 0"
  proof (cases "x < 0")
    case True
    show ?thesis unfolding neg [OF True] using sh(4) True by blast
  next
    case False
    show ?thesis unfolding pos [OF False] using sh(3) False by blast
  qed
  show "cell_micro (fixed6 x)
     = (if x < 0 then - 1 else 1) * round_half_even (\<bar>x\<bar> * 10 ^ 6)"
  proof (cases "x < 0")
    case True
    have "cell_micro (fixed6 x) = - round_half_even (\<bar>x\<bar> * 10 ^ 6)"
      unfolding neg [OF True] sh(6) val ..
    then show ?thesis using True by simp
  next
    case False
    have "cell_micro (fixed6 x) = round_half_even (\<bar>x\<bar> * 10 ^ 6)"
      unfolding pos [OF False] sh(5) val ..
    then show ?thesis using False by simp
  qed
qed

text \<open>What each operation does to the log and to the fields the invariants read.\<close>

lemma write_marker_fields [simp]:
  "ex_out (write_marker k t_q ev sp src s)
     = ex_out s @ (if ex_markers_writer s
                   then [MarkerRow k (fmt_val (PyFloat (Fin t_q))) ev sp src] else [])"
  "ex_tq_by_k (write_marker k t_q ev sp src s) = ex_tq_by_k s"
  "ex_open_rows (write_marker k t_q ev sp src s) = ex_open_rows s"
  "ex_k_seen_max (write_marker k t_q ev sp src s) = ex_k_seen_max s"
  "ex_event_changes (write_marker k t_q ev sp src s) = ex_event_changes s"
  "ex_initial_marker_emitted (write_marker k t_q ev sp src s) = ex_initial_marker_emitted s"
  "ex_sticky_event (write_marker k t_q ev sp src s) = ex_sticky_event s"
  "ex_default_event (write_marker k t_q ev sp src s) = ex_default_event s"
  "ex_markers_writer (write_marker k t_q ev sp src s) = ex_markers_writer s"
  "ex_synced_writer (write_marker k t_q ev sp src s) = ex_synced_writer s"
  "ex_channels (write_marker k t_q ev sp src s) = ex_channels s"
  "ex_header_frozen (write_marker k t_q ev sp src s) = ex_header_frozen s"
  by (simp_all add: write_marker_def)

lemma write_synced_header_fields [simp]:
  "\<exists>h. ex_out (write_synced_header s) = ex_out s @ h \<and>
       (\<forall>r \<in> set h. \<not> is_synced r \<and> \<not> is_sync_marker r) \<and> synced_ks h = []"
  "ex_tq_by_k (write_synced_header s) = ex_tq_by_k s"
  "ex_open_rows (write_synced_header s) = ex_open_rows s"
  "ex_k_seen_max (write_synced_header s) = ex_k_seen_max s"
  "ex_event_changes (write_synced_header s) = ex_event_changes s"
  "ex_initial_marker_emitted (write_synced_header s) = ex_initial_marker_emitted s"
  "ex_sticky_event (write_synced_header s) = ex_sticky_event s"
  "ex_default_event (write_synced_header s) = ex_default_event s"
  "ex_markers_writer (write_synced_header s) = ex_markers_writer s"
  by (simp_all add: write_synced_header_def)

lemma apply_change_fields [simp]:
  "ex_out (apply_change kk s) = ex_out s"
  "ex_tq_by_k (apply_change kk s) = ex_tq_by_k s"
  "ex_open_rows (apply_change kk s) = ex_open_rows s"
  "ex_initial_marker_emitted (apply_change kk s) = ex_initial_marker_emitted s"
  "ex_default_event (apply_change kk s) = ex_default_event s"
  "ex_markers_writer (apply_change kk s) = ex_markers_writer s"
  "ex_channels (apply_change kk s) = ex_channels s"
  "ex_delta (apply_change kk s) = ex_delta s"
  "ex_pending_committed (apply_change kk s) = ex_pending_committed s"
  by (simp_all add: apply_change_def split: option.splits)

lemma apply_change_keys:
  "fst ` set (ex_event_changes (apply_change kk s)) \<subseteq> fst ` set (ex_event_changes s)"
  using dom_delete_subset [of kk "ex_event_changes s"]
  by (auto simp: apply_change_def split: option.splits)

lemma fold_apply_change_fields [simp]:
  "ex_out (fold apply_change ks s) = ex_out s"
  "ex_tq_by_k (fold apply_change ks s) = ex_tq_by_k s"
  "ex_open_rows (fold apply_change ks s) = ex_open_rows s"
  "ex_initial_marker_emitted (fold apply_change ks s) = ex_initial_marker_emitted s"
  "ex_default_event (fold apply_change ks s) = ex_default_event s"
  "ex_markers_writer (fold apply_change ks s) = ex_markers_writer s"
  "ex_channels (fold apply_change ks s) = ex_channels s"
  "ex_delta (fold apply_change ks s) = ex_delta s"
  "ex_pending_committed (fold apply_change ks s) = ex_pending_committed s"
  by (induction ks arbitrary: s; simp)+

lemma fold_apply_change_keys:
  "fst ` set (ex_event_changes (fold apply_change ks s)) \<subseteq> fst ` set (ex_event_changes s)"
proof (induction ks arbitrary: s)
  case Nil
  then show ?case by simp
next
  case (Cons k ks)
  show ?case using Cons [of "apply_change k s"] apply_change_keys [of k s] by auto
qed

lemma apply_changes_fields [simp]:
  "ex_out (apply_changes k s) = ex_out s"
  "ex_tq_by_k (apply_changes k s) = ex_tq_by_k s"
  "ex_open_rows (apply_changes k s) = ex_open_rows s"
  "ex_initial_marker_emitted (apply_changes k s) = ex_initial_marker_emitted s"
  "ex_default_event (apply_changes k s) = ex_default_event s"
  "ex_markers_writer (apply_changes k s) = ex_markers_writer s"
  "ex_channels (apply_changes k s) = ex_channels s"
  "ex_delta (apply_changes k s) = ex_delta s"
  "ex_pending_committed (apply_changes k s) = ex_pending_committed s"
  by (simp_all add: apply_changes_def Let_def)

lemma apply_changes_keys:
  "fst ` set (ex_event_changes (apply_changes k s)) \<subseteq> fst ` set (ex_event_changes s)"
  using fold_apply_change_keys by (simp add: apply_changes_def Let_def)

lemma apply_changes_none_pending:
  assumes "\<forall>k' \<in> fst ` set (ex_event_changes s). k < k'"
  shows "apply_changes k s = s"
proof -
  have "filter (\<lambda>kk. kk \<le> k) (map fst (ex_event_changes s)) = []"
    using assms by (auto simp: filter_empty_conv)
  then show ?thesis by (simp add: apply_changes_def Let_def)
qed

text \<open>One committed row: the initial marker if it is still due, then the data row.\<close>

lemma commit_row_out:
  "\<exists>tq cells spike.
     ex_out (commit_row k s)
       = ex_out s @
         (if \<not> ex_initial_marker_emitted s \<and> ex_markers_writer s
          then [MarkerRow k tq (ex_sticky_event (apply_changes k s)) [] ''sync''] else []) @
         [SyncedRow k tq cells spike (ex_sticky_event (apply_changes k s))]"
  by (simp add: commit_row_def Let_def)

lemma commit_row_fields [simp]:
  "ex_initial_marker_emitted (commit_row k s) = True"
  "ex_default_event (commit_row k s) = ex_default_event s"
  "ex_markers_writer (commit_row k s) = ex_markers_writer s"
  "ex_tq_by_k (commit_row k s) = AList.delete k (ex_tq_by_k s)"
  "ex_event_changes (commit_row k s) = ex_event_changes (apply_changes k s)"
  "ex_sticky_event (commit_row k s) = ex_sticky_event (apply_changes k s)"
  by (simp_all add: commit_row_def Let_def)

text \<open>The initial-marker invariant is kept by every operation of the sink.\<close>

lemma sync_marked_mono:
  assumes "sync_marked EK d out" "EK \<subseteq> EK'"
  shows "sync_marked EK' d out"
  using assms unfolding sync_marked_def by blast

lemma sync_marked_append:
  assumes "sync_marked EK d out" "\<forall>r \<in> set h. \<not> is_sync_marker r"
  shows "sync_marked EK d (out @ h)"
proof -
  from assms(1) obtain pre k tq ev cells spike post where
    o: "out = pre @ [MarkerRow k tq ev [] ''sync'', SyncedRow k tq cells spike ev] @ post"
    and p: "\<forall>r \<in> set pre. \<not> is_synced r \<and> \<not> is_sync_marker r"
    and q: "\<forall>r \<in> set post. \<not> is_sync_marker r"
    and e: "(\<forall>k' \<in> EK. k < k') \<longrightarrow> ev = d"
    unfolding sync_marked_def by blast
  have "out @ h = pre @ [MarkerRow k tq ev [] ''sync'', SyncedRow k tq cells spike ev] @ (post @ h)"
    using o by simp
  moreover have "\<forall>r \<in> set (post @ h). \<not> is_sync_marker r"
    using q assms(2) by auto
  ultimately show ?thesis using p e unfolding sync_marked_def by blast
qed

lemma sync_inv_cong:
  assumes "ex_event_changes s' = ex_event_changes s"
    "ex_initial_marker_emitted s' = ex_initial_marker_emitted s"
    "ex_default_event s' = ex_default_event s"
    "ex_sticky_event s' = ex_sticky_event s"
    "ex_out s' = ex_out s"
  shows "sync_inv EK s' = sync_inv EK s"
  using assms by (simp add: sync_inv_def)

lemma sync_inv_extend:
  assumes "sync_inv EK s"
    "fst ` set (ex_event_changes s') \<subseteq> EK'" "EK \<subseteq> EK'"
    "ex_initial_marker_emitted s' = ex_initial_marker_emitted s"
    "ex_default_event s' = ex_default_event s"
    "ex_sticky_event s' = ex_sticky_event s"
    "ex_out s' = ex_out s @ h" "\<forall>r \<in> set h. \<not> is_synced r \<and> \<not> is_sync_marker r"
  shows "sync_inv EK' s'"
proof (cases "ex_initial_marker_emitted s")
  case True
  then have "sync_marked EK (ex_default_event s) (ex_out s)"
    using assms(1) by (simp add: sync_inv_def)
  then have "sync_marked EK' (ex_default_event s) (ex_out s @ h)"
    using assms(3,8) by (blast intro: sync_marked_mono sync_marked_append)
  then show ?thesis using True assms by (simp add: sync_inv_def)
next
  case False
  then show ?thesis using assms by (auto simp: sync_inv_def)
qed

lemma sync_inv_commit_row:
  assumes "sync_inv EK s" "ex_markers_writer s"
  shows "sync_inv EK (commit_row k s)"
proof -
  let ?ev = "ex_sticky_event (apply_changes k s)"
  obtain tq cells spike where
    out: "ex_out (commit_row k s)
            = ex_out s @
              (if \<not> ex_initial_marker_emitted s \<and> ex_markers_writer s
               then [MarkerRow k tq ?ev [] ''sync''] else []) @
              [SyncedRow k tq cells spike ?ev]"
    using commit_row_out [of k s] by blast
  have keys: "fst ` set (ex_event_changes (commit_row k s)) \<subseteq> EK"
    using assms(1) apply_changes_keys [of k s] by (auto simp: sync_inv_def)
  show ?thesis
  proof (cases "ex_initial_marker_emitted s")
    case True
    then have "sync_marked EK (ex_default_event s) (ex_out s)"
      using assms(1) by (simp add: sync_inv_def)
    then have "sync_marked EK (ex_default_event s) (ex_out s @ [SyncedRow k tq cells spike ?ev])"
      by (rule sync_marked_append) simp
    then show ?thesis using True out keys by (simp add: sync_inv_def)
  next
    case False
    then have st: "ex_sticky_event s = ex_default_event s"
      and clean: "\<forall>r \<in> set (ex_out s). \<not> is_synced r \<and> \<not> is_sync_marker r"
      and sub: "fst ` set (ex_event_changes s) \<subseteq> EK"
      using assms(1) by (simp_all add: sync_inv_def)
    have dflt: "(\<forall>k' \<in> EK. k < k') \<longrightarrow> ?ev = ex_default_event s"
    proof
      assume "\<forall>k' \<in> EK. k < k'"
      then have "\<forall>k' \<in> fst ` set (ex_event_changes s). k < k'" using sub by blast
      then have "apply_changes k s = s" by (rule apply_changes_none_pending)
      then show "?ev = ex_default_event s" using st by simp
    qed
    have "ex_out (commit_row k s)
            = ex_out s @ [MarkerRow k tq ?ev [] ''sync'', SyncedRow k tq cells spike ?ev] @ []"
      using out False assms(2) by simp
    then have "sync_marked EK (ex_default_event s) (ex_out (commit_row k s))"
      unfolding sync_marked_def using clean dflt by fastforce
    then show ?thesis using keys by (simp add: sync_inv_def)
  qed
qed

lemma fold_commit_row_markers_writer [simp]:
  "ex_markers_writer (fold commit_row ks s) = ex_markers_writer s"
  by (induction ks arbitrary: s) simp_all

lemma sync_inv_fold_commit_row:
  assumes "sync_inv EK s" "ex_markers_writer s"
  shows "sync_inv EK (fold commit_row ks s)"
  using assms by (induction ks arbitrary: s) (simp_all add: sync_inv_commit_row)

lemma sync_inv_write_synced_header:
  assumes "sync_inv EK s"
  shows "sync_inv EK (write_synced_header s)"
proof -
  obtain h where "ex_out (write_synced_header s) = ex_out s @ h"
    "\<forall>r \<in> set h. \<not> is_synced r \<and> \<not> is_sync_marker r"
    using write_synced_header_fields(1) [of s] by blast
  then show ?thesis
    using sync_inv_extend [OF assms, of "write_synced_header s" EK h] assms
    by (simp add: sync_inv_def)
qed

lemma sync_inv_drop_changes:
  assumes "sync_inv EK s"
  shows "sync_inv EK (s\<lparr>ex_event_changes := filter P (ex_event_changes s)\<rparr>)"
  using assms by (auto simp: sync_inv_def)

lemma commit_until_markers_writer [simp]:
  "ex_markers_writer (commit_until kc s) = ex_markers_writer s"
  by (simp add: commit_until_def Let_def)

lemma sync_inv_commit_until:
  assumes "sync_inv EK s" "ex_markers_writer s"
  shows "sync_inv EK (commit_until kc s)"
proof (cases "ex_header_frozen s")
  case True
  have "sync_inv EK ((fold commit_row ks s)
      \<lparr>ex_event_changes := filter P (ex_event_changes (fold commit_row ks s))\<rparr>)" for ks P
    using sync_inv_drop_changes [OF sync_inv_fold_commit_row [OF assms]] .
  then show ?thesis using True assms(1)
    by (simp add: commit_until_def Let_def)
next
  case False
  let ?s0 = "write_synced_header s"
  have s0: "sync_inv EK ?s0" "ex_markers_writer ?s0"
    using assms by (simp_all add: sync_inv_write_synced_header)
  have "sync_inv EK ((fold commit_row ks ?s0)
      \<lparr>ex_event_changes := filter P (ex_event_changes (fold commit_row ks ?s0))\<rparr>)" for ks P
    using sync_inv_drop_changes [OF sync_inv_fold_commit_row [OF s0]] .
  then show ?thesis using False assms(1) s0(1)
    by (simp add: commit_until_def Let_def)
qed

lemma synced_ks_append [simp]: "synced_ks (out @ h) = synced_ks out @ synced_ks h"
  by (induction out rule: synced_ks.induct) simp_all

lemma synced_ks_none:
  assumes "\<forall>r \<in> set out. \<not> is_synced r"
  shows "synced_ks out = []"
  using assms by (induction out rule: synced_ks.induct) simp_all

text \<open>A packet handler appends at most header and marker rows and keeps the sticky event.\<close>

lemma on_packet_out:
  "\<exists>h. ex_out (on_packet p s) = ex_out s @ h \<and> synced_ks h = [] \<and>
       (\<forall>r \<in> set h. \<not> is_synced r \<and>
          (payload_source p \<noteq> Some ''sync'' \<longrightarrow> \<not> is_sync_marker r))"
proof (cases p)
  case (Sample k t_q dev pairs)
  show ?thesis
  proof (cases "ex_header_frozen s")
    case True
    then show ?thesis using Sample by (simp add: on_packet_def on_sample_def Let_def)
  next
    case False
    let ?s2 = "s\<lparr>ex_k_seen_max := max (ex_k_seen_max s) k,
                  ex_tq_by_k := AList.update k t_q (ex_tq_by_k s),
                  ex_open_rows := AList.update k
                    (fold (put_pair (ex_channels s) dev) pairs (row_of (ex_open_rows s) k))
                    (ex_open_rows s)\<rparr>"
    obtain h where "ex_out (write_synced_header ?s2) = ex_out ?s2 @ h"
      "\<forall>r \<in> set h. \<not> is_synced r \<and> \<not> is_sync_marker r" "synced_ks h = []"
      using write_synced_header_fields(1) [of ?s2] by blast
    then show ?thesis using Sample False
      by (auto simp: on_packet_def on_sample_def Let_def)
  qed
next
  case (Event k t_q label source cur)
  then show ?thesis by (simp add: on_packet_def on_event_def)
next
  case (Spike k t_q label source)
  then show ?thesis by (simp add: on_packet_def on_spike_def Let_def)
qed

lemma on_packet_fields [simp]:
  "ex_initial_marker_emitted (on_packet p s) = ex_initial_marker_emitted s"
  "ex_default_event (on_packet p s) = ex_default_event s"
  "ex_sticky_event (on_packet p s) = ex_sticky_event s"
  "ex_markers_writer (on_packet p s) = ex_markers_writer s"
  by (cases p; simp add: on_packet_def on_sample_def on_event_def on_spike_def Let_def)+

lemma on_packet_changes:
  "fst ` set (ex_event_changes (on_packet p s))
     = fst ` set (ex_event_changes s) \<union> (if is_event p then {payload_k p} else {})"
  by (cases p) (auto simp: on_packet_def on_sample_def on_event_def on_spike_def Let_def dom_update)

lemma on_packet_tq_keys:
  "fst ` set (ex_tq_by_k (on_packet p s))
     = fst ` set (ex_tq_by_k s) \<union> (if is_event p then {} else {payload_k p})"
  by (cases p) (auto simp: on_packet_def on_sample_def on_event_def on_spike_def Let_def dom_update)

lemma sync_inv_on_packet:
  assumes "sync_inv EK s" "payload_source p \<noteq> Some ''sync''"
  shows "sync_inv (EK \<union> (if is_event p then {payload_k p} else {})) (on_packet p s)"
proof -
  obtain h where h: "ex_out (on_packet p s) = ex_out s @ h"
    "\<forall>r \<in> set h. \<not> is_synced r \<and> \<not> is_sync_marker r"
    using on_packet_out [of p s] assms(2) by blast
  have "fst ` set (ex_event_changes (on_packet p s))
          \<subseteq> EK \<union> (if is_event p then {payload_k p} else {})"
    using assms(1) on_packet_changes [of p s] by (auto simp: sync_inv_def)
  then show ?thesis
    using sync_inv_extend [OF assms(1), of "on_packet p s" _ h] h by simp
qed

lemma packets_Nil [simp]: "packets [] = []"
  by (simp add: packets_def)

lemma packets_Cons:
  "packets (it # its) = (case fst it of None \<Rightarrow> [] | Some p \<Rightarrow> [p]) @ packets its"
  by (simp add: packets_def split: option.splits)

lemma event_ks_single:
  "set (event_ks [it])
     = (case fst it of None \<Rightarrow> {} | Some p \<Rightarrow> if is_event p then {payload_k p} else {})"
  by (auto simp: event_ks_def packets_Cons split: option.splits)

lemma data_ks_single:
  "set (data_ks [it])
     = (case fst it of None \<Rightarrow> {} | Some p \<Rightarrow> if is_event p then {} else {payload_k p})"
  by (auto simp: data_ks_def packets_Cons split: option.splits)

lemma run_step_markers_writer [simp]:
  "ex_markers_writer (run_step it s) = ex_markers_writer s"
  by (simp add: run_step_def Let_def split: option.splits)

lemma sync_inv_run_step:
  assumes "sync_inv EK s" "ex_markers_writer s" "no_sync_source [it]"
  shows "sync_inv (EK \<union> set (event_ks [it])) (run_step it s)"
proof -
  let ?EK = "EK \<union> set (event_ks [it])"
  let ?s1 = "case fst it of None \<Rightarrow> s
             | Some p \<Rightarrow> on_packet p (s\<lparr>ex_last_activity_monotonic := snd it\<rparr>)"
  have s1: "sync_inv ?EK ?s1 \<and> ex_markers_writer ?s1"
  proof (cases "fst it")
    case None
    then show ?thesis using assms(1,2)
      by (simp add: event_ks_single)
  next
    case (Some p)
    have src: "payload_source p \<noteq> Some ''sync''"
      using assms(3) Some by (simp add: no_sync_source_def packets_Cons)
    have "sync_inv EK (s\<lparr>ex_last_activity_monotonic := snd it\<rparr>)"
      using assms(1) by (simp add: sync_inv_def)
    from sync_inv_on_packet [OF this src] show ?thesis using Some assms(2)
      by (simp add: event_ks_single)
  qed
  let ?s2 = "commit_until (ex_k_seen_max ?s1 - ex_L ?s1) ?s1"
  have s2: "sync_inv ?EK ?s2" "ex_markers_writer ?s2"
    using s1 by (simp_all add: sync_inv_commit_until)
  have s3: "sync_inv ?EK (commit_until kc ?s2)" for kc
    using s2 by (rule sync_inv_commit_until)
  have frame: "sync_inv ?EK (t\<lparr>ex_last_activity_monotonic := x\<rparr>) = sync_inv ?EK t"
    "sync_inv ?EK (t\<lparr>ex_last_flush_time := y, ex_pending_committed := z\<rparr>) = sync_inv ?EK t"
    for t x y z
    by (simp_all add: sync_inv_def)
  show ?thesis using s2(1) s3
    by (simp add: run_step_def Let_def frame)
qed

lemma no_sync_source_Cons:
  "no_sync_source (it # its) \<longleftrightarrow> no_sync_source [it] \<and> no_sync_source its"
  by (auto simp: no_sync_source_def packets_Cons split: option.splits)

lemma event_ks_Cons: "event_ks (it # its) = event_ks [it] @ event_ks its"
  by (simp add: event_ks_def packets_Cons [of it its] packets_Cons [of it "[]"] split: option.splits)

lemma data_ks_Cons: "data_ks (it # its) = data_ks [it] @ data_ks its"
  by (simp add: data_ks_def packets_Cons [of it its] packets_Cons [of it "[]"] split: option.splits)

lemma run_loop_markers_writer [simp]:
  "ex_markers_writer (run_loop its s) = ex_markers_writer s"
  unfolding run_loop_def by (induction its arbitrary: s) simp_all

lemma sync_inv_run_loop:
  assumes "sync_inv EK s" "ex_markers_writer s" "no_sync_source its"
  shows "sync_inv (EK \<union> set (event_ks its)) (run_loop its s)"
  using assms
proof (induction its arbitrary: s EK)
  case Nil
  then show ?case by (simp add: run_loop_def event_ks_def)
next
  case (Cons it its)
  from Cons.prems(3) have ns: "no_sync_source [it]" "no_sync_source its"
    using no_sync_source_Cons [of it its] by simp_all
  have "sync_inv (EK \<union> set (event_ks [it])) (run_step it s)"
    using Cons.prems(1,2) ns(1) by (rule sync_inv_run_step)
  from Cons.IH [OF this _ ns(2)] Cons.prems(2)
  have "sync_inv (EK \<union> set (event_ks [it]) \<union> set (event_ks its))
          (run_loop its (run_step it s))"
    by simp
  then show ?case
    by (simp add: run_loop_def event_ks_Cons [of it its] Un_assoc)
qed

lemma sync_inv_stop:
  assumes "sync_inv EK s" "ex_markers_writer s"
  shows "sync_inv EK (stop s)"
proof -
  have a: "sync_inv EK (s\<lparr>ex_thr := False\<rparr>)" "ex_markers_writer (s\<lparr>ex_thr := False\<rparr>)"
    using assms by (simp_all add: sync_inv_def)
  have "sync_inv EK (commit_until kc (s\<lparr>ex_thr := False\<rparr>))" for kc
    using a by (rule sync_inv_commit_until)
  then have "sync_inv EK ((commit_until kc (s\<lparr>ex_thr := False\<rparr>))
                \<lparr>ex_synced_writer := False, ex_markers_writer := False\<rparr>)" for kc
    by (simp add: sync_inv_def)
  then show ?thesis using assms(1) by (simp add: stop_def)
qed

text \<open>The started sink: nothing written but the headers, sticky event at the default.\<close>

lemma started_sink:
  assumes "ExportSink_init cfg ecfg a now = Inr si" "start si = (Inr u, s0)"
  shows "sync_inv {} s0" and "data_inv {} s0"
    and "ex_markers_writer s0 = CSV_MARKER_ENABLE ecfg"
    and "ex_default_event s0 = first_event cfg"
proof -
  from assms(1) obtain L rows fp where si: "si =
      \<lparr>ex_thr = False, ex_delta = a_delta a, ex_k_seen_max = - 1, ex_print_k = PRINT_K ecfg,
       ex_L = L, ex_flush_period = fp, ex_flush_rows_threshold = rows,
       ex_idle_watermark_sec =
         (case a_idle_watermark_sec a of Some w \<Rightarrow> w | None \<Rightarrow> IDLE_WATERMARK_SEC ecfg),
       ex_last_activity_monotonic = now, ex_csv_signal_enabled = CSV_SIGNAL_ENABLE ecfg,
       ex_csv_marker_enabled = CSV_MARKER_ENABLE ecfg, ex_channels = a_known_channels a,
       ex_header_frozen = (a_known_channels a \<noteq> []), ex_default_event = first_event cfg,
       ex_sticky_event = first_event cfg, ex_open_rows = [], ex_tq_by_k = [],
       ex_event_changes = [], ex_pending_committed = 0, ex_last_flush_time = now,
       ex_initial_marker_emitted = False, ex_synced_writer = False,
       ex_markers_writer = False, ex_out = []\<rparr>"
    by (auto simp: ExportSink_init_def Let_def split: sum.splits)
  from assms(2) show "sync_inv {} s0" and "data_inv {} s0"
    and "ex_markers_writer s0 = CSV_MARKER_ENABLE ecfg"
    and "ex_default_event s0 = first_event cfg"
    unfolding si
    by (auto simp: start_def Let_def sync_inv_def data_inv_def split: if_splits)
qed

text \<open>Data rows are written only for frame indices that a sample or a spike brought.\<close>

lemma data_inv_commit_row:
  assumes "data_inv DK s" "k \<in> DK"
  shows "data_inv DK (commit_row k s)"
proof -
  obtain tq cells spike where
    "ex_out (commit_row k s)
       = ex_out s @
         (if \<not> ex_initial_marker_emitted s \<and> ex_markers_writer s
          then [MarkerRow k tq (ex_sticky_event (apply_changes k s)) [] ''sync''] else []) @
         [SyncedRow k tq cells spike (ex_sticky_event (apply_changes k s))]"
    using commit_row_out [of k s] by blast
  then have "set (synced_ks (ex_out (commit_row k s))) = insert k (set (synced_ks (ex_out s)))"
    by simp
  then show ?thesis
    using assms dom_delete_subset [of k "ex_tq_by_k s"] by (auto simp: data_inv_def)
qed

lemma data_inv_fold_commit_row:
  assumes "data_inv DK s" "set ks \<subseteq> DK"
  shows "data_inv DK (fold commit_row ks s)"
  using assms by (induction ks arbitrary: s) (simp_all add: data_inv_commit_row)

lemma data_inv_write_synced_header:
  assumes "data_inv DK s"
  shows "data_inv DK (write_synced_header s)"
proof -
  obtain h where "ex_out (write_synced_header s) = ex_out s @ h" "synced_ks h = []"
    using write_synced_header_fields(1) [of s] by blast
  then show ?thesis using assms by (simp add: data_inv_def)
qed

lemma data_inv_commit_until:
  assumes "data_inv DK s"
  shows "data_inv DK (commit_until kc s)"
proof (cases "ex_header_frozen s")
  case True
  have "set (sort (filter (\<lambda>k. k \<le> kc) (map fst (ex_tq_by_k s)))) \<subseteq> DK"
    using assms by (auto simp: data_inv_def)
  from data_inv_fold_commit_row [OF assms this]
  have "data_inv DK ((fold commit_row (sort (filter (\<lambda>k. k \<le> kc) (map fst (ex_tq_by_k s)))) s)
          \<lparr>ex_event_changes := c\<rparr>)" for c
    by (simp add: data_inv_def)
  then show ?thesis using True assms
    by (simp add: commit_until_def Let_def)
next
  case False
  let ?s0 = "write_synced_header s"
  have s0: "data_inv DK ?s0" using assms by (rule data_inv_write_synced_header)
  have "set (sort (filter (\<lambda>k. k \<le> kc) (map fst (ex_tq_by_k ?s0)))) \<subseteq> DK"
    using assms by (auto simp: data_inv_def)
  from data_inv_fold_commit_row [OF s0 this]
  have "data_inv DK ((fold commit_row (sort (filter (\<lambda>k. k \<le> kc) (map fst (ex_tq_by_k s)))) ?s0)
          \<lparr>ex_event_changes := c\<rparr>)" for c
    by (simp add: data_inv_def)
  then show ?thesis using False assms s0
    by (simp add: commit_until_def Let_def)
qed

lemma data_inv_on_packet:
  assumes "data_inv DK s"
  shows "data_inv (DK \<union> (if is_event p then {} else {payload_k p})) (on_packet p s)"
proof -
  obtain h where "ex_out (on_packet p s) = ex_out s @ h" "synced_ks h = []"
    using on_packet_out [of p s] by blast
  then show ?thesis
    using assms on_packet_tq_keys [of p s] by (auto simp: data_inv_def)
qed

lemma data_inv_run_step:
  assumes "data_inv DK s"
  shows "data_inv (DK \<union> set (data_ks [it])) (run_step it s)"
proof -
  let ?DK = "DK \<union> set (data_ks [it])"
  let ?s1 = "case fst it of None \<Rightarrow> s
             | Some p \<Rightarrow> on_packet p (s\<lparr>ex_last_activity_monotonic := snd it\<rparr>)"
  have s1: "data_inv ?DK ?s1"
  proof (cases "fst it")
    case None
    then show ?thesis using assms by (simp add: data_ks_single)
  next
    case (Some p)
    have "data_inv DK (s\<lparr>ex_last_activity_monotonic := snd it\<rparr>)"
      using assms by (simp add: data_inv_def)
    from data_inv_on_packet [OF this, of p] show ?thesis using Some
      by (simp add: data_ks_single)
  qed
  let ?s2 = "commit_until (ex_k_seen_max ?s1 - ex_L ?s1) ?s1"
  have s2: "data_inv ?DK ?s2"
    using s1 by (rule data_inv_commit_until)
  have s3: "data_inv ?DK (commit_until kc ?s2)" for kc
    using s2 by (rule data_inv_commit_until)
  have frame: "data_inv ?DK (t\<lparr>ex_last_activity_monotonic := x\<rparr>) = data_inv ?DK t"
    "data_inv ?DK (t\<lparr>ex_last_flush_time := y, ex_pending_committed := z\<rparr>) = data_inv ?DK t"
    for t x y z
    by (simp_all add: data_inv_def)
  show ?thesis using s2 s3
    by (simp add: run_step_def Let_def frame)
qed

lemma data_inv_run_loop:
  assumes "data_inv DK s"
  shows "data_inv (DK \<union> set (data_ks its)) (run_loop its s)"
  using assms
proof (induction its arbitrary: s DK)
  case Nil
  then show ?case by (simp add: run_loop_def data_ks_def)
next
  case (Cons it its)
  have "data_inv (DK \<union> set (data_ks [it])) (run_step it s)"
    using Cons.prems by (rule data_inv_run_step)
  from Cons.IH [OF this]
  show ?case
    by (simp add: run_loop_def data_ks_Cons [of it its] Un_assoc)
qed

lemma data_inv_stop:
  assumes "data_inv DK s"
  shows "data_inv DK (stop s)"
proof -
  have "data_inv DK (s\<lparr>ex_thr := False\<rparr>)"
    using assms by (simp add: data_inv_def)
  then have "data_inv DK (commit_until kc (s\<lparr>ex_thr := False\<rparr>))" for kc
    by (rule data_inv_commit_until)
  then have "data_inv DK ((commit_until kc (s\<lparr>ex_thr := False\<rparr>))
                \<lparr>ex_synced_writer := False, ex_markers_writer := False\<rparr>)" for kc
    by (simp add: data_inv_def)
  then show ?thesis using assms by (simp add: stop_def)
qed

lemma fold_commit_row_default_event [simp]:
  "ex_default_event (fold commit_row ks s) = ex_default_event s"
  by (induction ks arbitrary: s) simp_all

lemma commit_until_default_event [simp]:
  "ex_default_event (commit_until kc s) = ex_default_event s"
  by (simp add: commit_until_def Let_def)

lemma run_step_default_event [simp]:
  "ex_default_event (run_step it s) = ex_default_event s"
  by (simp add: run_step_def Let_def split: option.splits)

lemma run_loop_default_event [simp]:
  "ex_default_event (run_loop its s) = ex_default_event s"
  unfolding run_loop_def by (induction its arbitrary: s) simp_all

lemma stop_default_event [simp]:
  "ex_default_event (stop s) = ex_default_event s"
  by (simp add: stop_def)

lemma session_cases:
  assumes "session cfg ecfg a now its = Some s"
  obtains si u s0 where "ExportSink_init cfg ecfg a now = Inr si" "start si = (Inr u, s0)"
    "s = stop (run_loop its s0)"
  using assms by (auto simp: session_def split: sum.splits prod.splits)

lemma on_event_frame:
  "on_event k t_q source cur s
     = s\<lparr>ex_event_changes := AList.update k cur (ex_event_changes s),
         ex_out := ex_out s @
           (if ex_markers_writer s
            then [MarkerRow k (fmt_val (PyFloat (Fin t_q))) cur [] source] else [])\<rparr>"
  by (simp add: on_event_def write_marker_def)

text \<open>The scenario runs, evaluated one iteration at a time.\<close>

lemmas sink_eval = run_step_def on_packet_def on_sample_def on_event_def
  on_spike_def commit_until_def commit_row_def apply_changes_def apply_change_def
  write_marker_def write_synced_header_def row_of_def cell_def put_pair_def
  sample_at_def Let_def

lemmas scenario_sink_eq = scenario_sink_def

lemma scenario_sink_started:
  "\<exists>si. ExportSink_init scenario_cfg scenario_ecfg scenario_args 0 = Inr si \<and>
        start si = (Inr (), scenario_sink)"
  by (simp add: scenario_sink_def ExportSink_init_def lookahead_of_def flush_rows_of_def
      scenario_args_def scenario_ecfg_def scenario_cfg_def first_event_def start_def
      round_half_even_def Let_def)

lemma scenario_state_initial:
  "scenario_sink = scenario_state (- 1) 0 [] [] [] ''REST'' 0 False []"
  by (simp add: scenario_state_def scenario_sink_eq)

lemma session_scenario:
  "session scenario_cfg scenario_ecfg scenario_args 0 its
     = Some (stop (run_loop its scenario_sink))"
  using scenario_sink_started by (auto simp: session_def)

lemma scenario_state_out:
  "ex_out (scenario_state kmax act rows tqs changes sticky pending emitted out)
     = [MarkersHeader [''k'', ''t_q'', ''event'', ''spike'', ''source''],
        SyncedHeader [''k'', ''t_q'', ''A:x'', ''spike'', ''event'']] @ out"
  by (simp add: scenario_state_def scenario_sink_eq)

lemma late_run_1:
  "run_step (sample_at 1 1 (1 / 100)) (scenario_state (- 1) 0 [] [] [] ''REST'' 0 False [])
     = scenario_state 1 (1 / 100) [(1, [''A:x'' \<mapsto> ''1.000000''])] [(1, 1 / 100)] []
         ''REST'' 0 False []"
  by (simp add: scenario_state_def scenario_sink_eq sink_eval fixed6_vals)

lemma late_run_2:
  "run_step (sample_at 5 2 (1 / 20))
     (scenario_state 1 (1 / 100) [(1, [''A:x'' \<mapsto> ''1.000000''])] [(1, 1 / 100)] []
        ''REST'' 0 False [])
     = scenario_state 5 (1 / 20) [(5, [''A:x'' \<mapsto> ''2.000000''])] [(5, 1 / 20)] []
         ''REST'' 1 True
         [MarkerRow 1 ''0.010000'' ''REST'' [] ''sync'',
          SyncedRow 1 ''0.010000'' [''1.000000''] [] ''REST'']"
  by (simp add: scenario_state_def scenario_sink_eq sink_eval fixed6_vals)

lemma late_run_3:
  "run_step (sample_at 1 9 (3 / 50))
     (scenario_state 5 (1 / 20) [(5, [''A:x'' \<mapsto> ''2.000000''])] [(5, 1 / 20)] []
        ''REST'' 1 True
        [MarkerRow 1 ''0.010000'' ''REST'' [] ''sync'',
         SyncedRow 1 ''0.010000'' [''1.000000''] [] ''REST''])
     = scenario_state 5 (3 / 50) [(5, [''A:x'' \<mapsto> ''2.000000''])] [(5, 1 / 20)] []
         ''REST'' 2 True
         [MarkerRow 1 ''0.010000'' ''REST'' [] ''sync'',
          SyncedRow 1 ''0.010000'' [''1.000000''] [] ''REST'',
          SyncedRow 1 ''0.010000'' [''9.000000''] [] ''REST'']"
  by (simp add: scenario_state_def scenario_sink_eq sink_eval fixed6_vals)

lemma late_run_loop:
  "run_loop late_run scenario_sink
     = scenario_state 5 (3 / 50) [(5, [''A:x'' \<mapsto> ''2.000000''])] [(5, 1 / 20)] []
         ''REST'' 2 True
         [MarkerRow 1 ''0.010000'' ''REST'' [] ''sync'',
          SyncedRow 1 ''0.010000'' [''1.000000''] [] ''REST'',
          SyncedRow 1 ''0.010000'' [''9.000000''] [] ''REST'']"
  by (simp add: run_loop_def late_run_def scenario_state_initial late_run_1 late_run_2
      late_run_3)

lemma late_run_out:
  "map_option ex_out (session scenario_cfg scenario_ecfg scenario_args 0 late_run)
     = Some [MarkersHeader [''k'', ''t_q'', ''event'', ''spike'', ''source''],
             SyncedHeader [''k'', ''t_q'', ''A:x'', ''spike'', ''event''],
             MarkerRow 1 ''0.010000'' ''REST'' [] ''sync'',
             SyncedRow 1 ''0.010000'' [''1.000000''] [] ''REST'',
             SyncedRow 1 ''0.010000'' [''9.000000''] [] ''REST'',
             SyncedRow 5 ''0.050000'' [''2.000000''] [] ''REST'']"
  by (simp add: session_scenario late_run_loop)
    (simp add: scenario_state_def scenario_sink_eq stop_def sink_eval fixed6_vals)

lemma sparse_run_1:
  "run_step (sample_at 8 1 (2 / 25)) (scenario_state (- 1) 0 [] [] [] ''REST'' 0 False [])
     = scenario_state 8 (2 / 25) [(8, [''A:x'' \<mapsto> ''1.000000''])] [(8, 2 / 25)] []
         ''REST'' 0 False []"
  by (simp add: scenario_state_def scenario_sink_eq sink_eval fixed6_vals)

lemma sparse_run_2:
  "run_step (Some (Event 9 (9 / 100) ''TASK_8'' ''keyboard'' ''TASK_8''), 9 / 100)
     (scenario_state 8 (2 / 25) [(8, [''A:x'' \<mapsto> ''1.000000''])] [(8, 2 / 25)] []
        ''REST'' 0 False [])
     = scenario_state 8 (9 / 100) [(8, [''A:x'' \<mapsto> ''1.000000''])] [(8, 2 / 25)]
         [(9, ''TASK_8'')] ''REST'' 0 False
         [MarkerRow 9 ''0.090000'' ''TASK_8'' [] ''keyboard'']"
  by (simp add: scenario_state_def scenario_sink_eq sink_eval fixed6_vals)

lemma sparse_run_3:
  "run_step (sample_at 20 2 (1 / 5))
     (scenario_state 8 (9 / 100) [(8, [''A:x'' \<mapsto> ''1.000000''])] [(8, 2 / 25)]
        [(9, ''TASK_8'')] ''REST'' 0 False
        [MarkerRow 9 ''0.090000'' ''TASK_8'' [] ''keyboard''])
     = scenario_state 20 (1 / 5) [(20, [''A:x'' \<mapsto> ''2.000000''])] [(20, 1 / 5)] []
         ''REST'' 1 True
         [MarkerRow 9 ''0.090000'' ''TASK_8'' [] ''keyboard'',
          MarkerRow 8 ''0.080000'' ''REST'' [] ''sync'',
          SyncedRow 8 ''0.080000'' [''1.000000''] [] ''REST'']"
  by (simp add: scenario_state_def scenario_sink_eq sink_eval fixed6_vals)

lemma sparse_run_loop:
  "run_loop sparse_run scenario_sink
     = scenario_state 20 (1 / 5) [(20, [''A:x'' \<mapsto> ''2.000000''])] [(20, 1 / 5)] []
         ''REST'' 1 True
         [MarkerRow 9 ''0.090000'' ''TASK_8'' [] ''keyboard'',
          MarkerRow 8 ''0.080000'' ''REST'' [] ''sync'',
          SyncedRow 8 ''0.080000'' [''1.000000''] [] ''REST'']"
  by (simp add: run_loop_def sparse_run_def scenario_state_initial sparse_run_1 sparse_run_2
      sparse_run_3)

lemma sparse_run_out:
  "map_option ex_out (session scenario_cfg scenario_ecfg scenario_args 0 sparse_run)
     = Some [MarkersHeader [''k'', ''t_q'', ''event'', ''spike'', ''source''],
             SyncedHeader [''k'', ''t_q'', ''A:x'', ''spike'', ''event''],
             MarkerRow 9 ''0.090000'' ''TASK_8'' [] ''keyboard'',
             MarkerRow 8 ''0.080000'' ''REST'' [] ''sync'',
             SyncedRow 8 ''0.080000'' [''1.000000''] [] ''REST'',
             SyncedRow 20 ''0.200000'' [''2.000000''] [] ''REST'']"
  by (simp add: session_scenario sparse_run_loop)
    (simp add: scenario_state_def scenario_sink_eq stop_def sink_eval fixed6_vals)

lemma early_event_run_1:
  "run_step (Some (Event 0 0 ''TASK_7'' ''keyboard'' ''TASK_7''), 0)
     (scenario_state (- 1) 0 [] [] [] ''REST'' 0 False [])
     = scenario_state (- 1) 0 [] [] [(0, ''TASK_7'')] ''REST'' 0 False
         [MarkerRow 0 ''0.000000'' ''TASK_7'' [] ''keyboard'']"
  by (simp add: scenario_state_def scenario_sink_eq sink_eval fixed6_vals)

lemma early_event_run_2:
  "run_step (sample_at 0 1 (1 / 100))
     (scenario_state (- 1) 0 [] [] [(0, ''TASK_7'')] ''REST'' 0 False
        [MarkerRow 0 ''0.000000'' ''TASK_7'' [] ''keyboard''])
     = scenario_state 0 (1 / 100) [(0, [''A:x'' \<mapsto> ''1.000000''])] [(0, 0)]
         [(0, ''TASK_7'')] ''REST'' 0 False
         [MarkerRow 0 ''0.000000'' ''TASK_7'' [] ''keyboard'']"
  by (simp add: scenario_state_def scenario_sink_eq sink_eval fixed6_vals)

lemma early_event_run_loop:
  "run_loop early_event_run scenario_sink
     = scenario_state 0 (1 / 100) [(0, [''A:x'' \<mapsto> ''1.000000''])] [(0, 0)]
         [(0, ''TASK_7'')] ''REST'' 0 False
         [MarkerRow 0 ''0.000000'' ''TASK_7'' [] ''keyboard'']"
  by (simp add: run_loop_def early_event_run_def scenario_state_initial early_event_run_1
      early_event_run_2)

lemma early_event_run_out:
  "map_option ex_out (session scenario_cfg scenario_ecfg scenario_args 0 early_event_run)
     = Some [MarkersHeader [''k'', ''t_q'', ''event'', ''spike'', ''source''],
             SyncedHeader [''k'', ''t_q'', ''A:x'', ''spike'', ''event''],
             MarkerRow 0 ''0.000000'' ''TASK_7'' [] ''keyboard'',
             MarkerRow 0 ''0.000000'' ''TASK_7'' [] ''sync'',
             SyncedRow 0 ''0.000000'' [''1.000000''] [] ''TASK_7'']"
  by (simp add: session_scenario early_event_run_loop)
    (simp add: scenario_state_def scenario_sink_eq stop_def sink_eval fixed6_vals)

text \<open>
  Claim C3, as amended. An absent value is written as the empty cell. Every finite value
  is written in fixed-point notation with exactly six decimals: the cell has a minus sign
  exactly when the value is negative (or the negative zero), and it reads as the multiple
  of \<open>10^-6\<close> nearest to the value, the even one of the two when the value lies halfway.
  A non-finite value is written as the text \<open>nan\<close>, \<open>inf\<close> or \<open>-inf\<close>, which is
  neither empty nor in that notation.
\<close>

theorem fmt_val_cells:
  "fmt_val PyNone = [] \<and>
   is_fixed6 (fmt_val (PyFloat (Fin x))) \<and>
   (has_minus (fmt_val (PyFloat (Fin x))) \<longleftrightarrow> x < 0) \<and>
   \<bar>real_of_int (cell_micro (fmt_val (PyFloat (Fin x)))) - x * 10 ^ 6\<bar> \<le> 1 / 2 \<and>
   (\<bar>real_of_int (cell_micro (fmt_val (PyFloat (Fin x)))) - x * 10 ^ 6\<bar> = 1 / 2 \<longrightarrow>
      even (cell_micro (fmt_val (PyFloat (Fin x))))) \<and>
   fmt_val (PyFloat NegZero) = ''-0.000000'' \<and>
   is_fixed6 (fmt_val (PyFloat NegZero)) \<and> has_minus (fmt_val (PyFloat NegZero)) \<and>
   cell_micro (fmt_val (PyFloat NegZero)) = 0 \<and>
   fmt_val (PyFloat NaN) = ''nan'' \<and>
   fmt_val (PyFloat PosInf) = ''inf'' \<and>
   fmt_val (PyFloat NegInf) = ''-inf'' \<and>
   \<not> is_fixed6 ''nan'' \<and> \<not> is_fixed6 ''inf'' \<and> \<not> is_fixed6 ''-inf'' \<and> \<not> is_fixed6 []"
proof -
  let ?y = "\<bar>x\<bar> * 10 ^ 6"
  let ?c = "cell_micro (fixed6 x)"
  have d: "real_of_int ?c - x * 10 ^ 6
             = (if x < 0 then - 1 else 1) * (real_of_int (round_half_even ?y) - ?y)"
    by (simp add: fixed6_reads(3) algebra_simps)
  then have a: "\<bar>real_of_int ?c - x * 10 ^ 6\<bar> = \<bar>real_of_int (round_half_even ?y) - ?y\<bar>"
    by (simp split: if_splits)
  have b: "\<bar>real_of_int ?c - x * 10 ^ 6\<bar> \<le> 1 / 2"
    unfolding a by (rule round_half_even_nearest(1))
  have e: "even ?c" if "\<bar>real_of_int ?c - x * 10 ^ 6\<bar> = 1 / 2"
  proof -
    have "even (round_half_even ?y)"
      using that unfolding a by (rule round_half_even_nearest(2))
    then show ?thesis by (simp add: fixed6_reads(3))
  qed
  have z: "is_fixed6 ''-0.000000''" "has_minus ''-0.000000''" "cell_micro ''-0.000000'' = 0"
    by (simp_all add: is_fixed6_def has_minus_def cell_micro_def is_digit_def digits_nat_def
        digit_val_def)
  have nf: "\<not> is_fixed6 ''nan''" "\<not> is_fixed6 ''inf''" "\<not> is_fixed6 ''-inf''" "\<not> is_fixed6 []"
    by (simp_all add: is_fixed6_def has_minus_def is_digit_def)
  show ?thesis using fixed6_reads(1,2) [of x] b e z nf by simp
qed

theorem fmt_val_cells_witness:
  "fmt_val (PyFloat (Fin (1 / 2000000))) = ''0.000000'' \<and>
   \<bar>real_of_int (cell_micro (fmt_val (PyFloat (Fin (1 / 2000000))))) - 1 / 2000000 * 10 ^ 6\<bar>
     = 1 / 2 \<and>
   even (cell_micro (fmt_val (PyFloat (Fin (1 / 2000000))))) \<and>
   fmt_val (PyFloat (Fin (3 / 2000000))) = ''0.000002'' \<and>
   fmt_val (PyFloat (Fin (- 1234567 / 1000))) = ''-1234.567000''"
proof -
  have v: "fmt_val (PyFloat (Fin (1 / 2000000))) = ''0.000000''"
    "fmt_val (PyFloat (Fin (3 / 2000000))) = ''0.000002''"
    "fmt_val (PyFloat (Fin (- 1234567 / 1000))) = ''-1234.567000''"
    by (simp_all add: fmt_eval Let_def)
  have t: "\<bar>real_of_int (cell_micro (fmt_val (PyFloat (Fin (1 / 2000000)))))
             - 1 / 2000000 * 10 ^ 6\<bar> = 1 / 2"
    unfolding v
    by (simp add: cell_micro_def has_minus_def is_digit_def digits_nat_def digit_val_def)
  show ?thesis using fmt_val_cells [of "1 / 2000000"] t v by blast
qed

text \<open>Claim C3, as stated, fails: NaN is not written as the empty cell.\<close>

theorem fmt_val_nan_counterexample:
  "fmt_val (PyFloat NaN) \<noteq> []"
  by simp

text \<open>
  Claim C1 at the failing input. With lookahead 3, samples arrive at k = 1 and k = 5, and
  the row of k = 1 is committed; a third sample then arrives at k = 1, when
  \<open>k_seen_max - L = 2\<close>. It is not dropped: a second row of k = 1 is written, with the late
  value 9.
\<close>

theorem late_sample_written:
  "ex_k_seen_max (run_loop (butlast late_run) scenario_sink)
     - ex_L (run_loop (butlast late_run) scenario_sink) = 2 \<and>
   last late_run = sample_at 1 9 (3 / 50) \<and>
   map_option ex_out (session scenario_cfg scenario_ecfg scenario_args 0 late_run)
     = Some [MarkersHeader [''k'', ''t_q'', ''event'', ''spike'', ''source''],
             SyncedHeader [''k'', ''t_q'', ''A:x'', ''spike'', ''event''],
             MarkerRow 1 ''0.010000'' ''REST'' [] ''sync'',
             SyncedRow 1 ''0.010000'' [''1.000000''] [] ''REST'',
             SyncedRow 1 ''0.010000'' [''9.000000''] [] ''REST'',
             SyncedRow 5 ''0.050000'' [''2.000000''] [] ''REST'']"
proof -
  have "run_loop (butlast late_run) scenario_sink
          = scenario_state 5 (1 / 20) [(5, [''A:x'' \<mapsto> ''2.000000''])] [(5, 1 / 20)] []
              ''REST'' 1 True
              [MarkerRow 1 ''0.010000'' ''REST'' [] ''sync'',
               SyncedRow 1 ''0.010000'' [''1.000000''] [] ''REST'']"
    by (simp add: run_loop_def late_run_def scenario_state_initial late_run_1 late_run_2)
  then have "ex_k_seen_max (run_loop (butlast late_run) scenario_sink)
     - ex_L (run_loop (butlast late_run) scenario_sink) = 2"
    by (simp add: scenario_state_def scenario_sink_eq)
  then show ?thesis using late_run_out by (simp add: late_run_def)
qed

text \<open>
  Claim C2 at the failing input. With lookahead 3, a sample arrives at k = 8, an event
  change to TASK_8 at k = 9, a sample at k = 20. The commit up to 17 writes the row of
  k = 8 and then discards the pending change of k = 9 without applying it: the row of
  k = 20 carries the default REST, not TASK_8.
\<close>

theorem sparse_event_lost:
  "event_ks sparse_run = [9] \<and>
   map_option ex_out (session scenario_cfg scenario_ecfg scenario_args 0 sparse_run)
     = Some [MarkersHeader [''k'', ''t_q'', ''event'', ''spike'', ''source''],
             SyncedHeader [''k'', ''t_q'', ''A:x'', ''spike'', ''event''],
             MarkerRow 9 ''0.090000'' ''TASK_8'' [] ''keyboard'',
             MarkerRow 8 ''0.080000'' ''REST'' [] ''sync'',
             SyncedRow 8 ''0.080000'' [''1.000000''] [] ''REST'',
             SyncedRow 20 ''0.200000'' [''2.000000''] [] ''REST'']"
  using sparse_run_out
  by (simp add: event_ks_def packets_def sparse_run_def sample_at_def)

text \<open>
  The initial marker in general. In every session with the markers CSV enabled in which
  no trigger payload carries the source \<open>sync\<close> and at least one row is committed, the
  log holds exactly one marker row of source \<open>sync\<close>; it is written at the first committed
  frame index, directly before that index's data row, with the event of that data row (the
  sticky event after the pending changes up to that index), which is the default event
  when no event payload of the session has an index up to it.
\<close>

lemma initial_marker_once:
  assumes "session cfg ecfg a now its = Some s" "CSV_MARKER_ENABLE ecfg"
    "no_sync_source its" "synced_ks (ex_out s) \<noteq> []"
  shows "length (filter is_sync_marker (ex_out s)) = 1 \<and>
    (\<exists>pre k tq ev cells spike post.
       ex_out s = pre @ [MarkerRow k tq ev [] ''sync'', SyncedRow k tq cells spike ev] @ post \<and>
       (\<forall>r \<in> set pre. \<not> is_synced r \<and> \<not> is_sync_marker r) \<and>
       (\<forall>r \<in> set post. \<not> is_sync_marker r) \<and>
       ((\<forall>k' \<in> set (event_ks its). k < k') \<longrightarrow> ev = first_event cfg))"
proof -
  from assms(1) obtain si u s0 where
    i: "ExportSink_init cfg ecfg a now = Inr si" "start si = (Inr u, s0)"
    and s: "s = stop (run_loop its s0)"
    by (rule session_cases)
  have mw: "ex_markers_writer s0" using started_sink(3) [OF i] assms(2) by simp
  have "sync_inv ({} \<union> set (event_ks its)) (run_loop its s0)"
    using started_sink(1) [OF i] mw assms(3) by (rule sync_inv_run_loop)
  then have inv: "sync_inv (set (event_ks its)) s"
    unfolding s using mw by (simp add: sync_inv_stop)
  have d: "ex_default_event s = first_event cfg"
    using started_sink(4) [OF i] unfolding s by simp
  have "ex_initial_marker_emitted s"
  proof (rule ccontr)
    assume "\<not> ex_initial_marker_emitted s"
    then have "\<forall>r \<in> set (ex_out s). \<not> is_synced r" using inv by (simp add: sync_inv_def)
    then have "synced_ks (ex_out s) = []" by (rule synced_ks_none)
    then show False using assms(4) by simp
  qed
  then have "sync_marked (set (event_ks its)) (first_event cfg) (ex_out s)"
    using inv d by (simp add: sync_inv_def)
  then obtain pre k tq ev cells spike post where
    o: "ex_out s = pre @ [MarkerRow k tq ev [] ''sync'', SyncedRow k tq cells spike ev] @ post"
    and p: "\<forall>r \<in> set pre. \<not> is_synced r \<and> \<not> is_sync_marker r"
    and q: "\<forall>r \<in> set post. \<not> is_sync_marker r"
    and e: "(\<forall>k' \<in> set (event_ks its). k < k') \<longrightarrow> ev = first_event cfg"
    unfolding sync_marked_def by blast
  have "filter is_sync_marker pre = []" "filter is_sync_marker post = []"
    using p q by (simp_all add: filter_empty_conv)
  then have "length (filter is_sync_marker (ex_out s)) = 1"
    unfolding o by simp
  then show ?thesis using o p q e by blast
qed

lemma initial_marker_once_sparse_run:
  "session scenario_cfg scenario_ecfg scenario_args 0 sparse_run
     = Some (stop (run_loop sparse_run scenario_sink)) \<and>
   CSV_MARKER_ENABLE scenario_ecfg \<and> no_sync_source sparse_run \<and>
   synced_ks (ex_out (stop (run_loop sparse_run scenario_sink))) \<noteq> [] \<and>
   length (filter is_sync_marker (ex_out (stop (run_loop sparse_run scenario_sink)))) = 1"
proof -
  let ?s = "stop (run_loop sparse_run scenario_sink)"
  have a: "session scenario_cfg scenario_ecfg scenario_args 0 sparse_run = Some ?s"
    by (rule session_scenario)
  have b: "CSV_MARKER_ENABLE scenario_ecfg" by (simp add: scenario_ecfg_def)
  have c: "no_sync_source sparse_run"
    by (simp add: no_sync_source_def packets_def sparse_run_def sample_at_def)
  have d: "synced_ks (ex_out ?s) \<noteq> []"
    using sparse_run_out by (simp add: session_scenario)
  show ?thesis using initial_marker_once [OF a b c d] a b c d by simp
qed

text \<open>
  Claim C4 at the failing input. The default event is REST. An event change to TASK_7 at
  k = 0 arrives before the first sample, which is also at k = 0. The first commit applies
  the pending change before it writes the initial marker, so the one row of source
  \<open>sync\<close> carries TASK_7 and not the default event, which the comment at the marker's
  flag (\<open>Emit default event at first commit\<close>) announces.
\<close>

theorem initial_marker_not_default:
  "first_event scenario_cfg = ''REST'' \<and>
   map_option ex_out (session scenario_cfg scenario_ecfg scenario_args 0 early_event_run)
     = Some [MarkersHeader [''k'', ''t_q'', ''event'', ''spike'', ''source''],
             SyncedHeader [''k'', ''t_q'', ''A:x'', ''spike'', ''event''],
             MarkerRow 0 ''0.000000'' ''TASK_7'' [] ''keyboard'',
             MarkerRow 0 ''0.000000'' ''TASK_7'' [] ''sync'',
             SyncedRow 0 ''0.000000'' [''1.000000''] [] ''TASK_7'']"
  using early_event_run_out by (simp add: first_event_def scenario_cfg_def)

text \<open>
  Claim C10. Handling an event payload changes the pending event changes and appends one
  row to the markers CSV (when that file is written), and nothing else: the open rows,
  the time of each index and the maximal index seen are as before. In every session the
  data rows of the synced CSV have frame indices that a sample or a spike brought, so an
  index at which only event payloads arrive has no row.
\<close>

theorem event_only_no_row:
  "on_event k t_q source cur s
     = s\<lparr>ex_event_changes := AList.update k cur (ex_event_changes s),
         ex_out := ex_out s @
           (if ex_markers_writer s
            then [MarkerRow k (fmt_val (PyFloat (Fin t_q))) cur [] source] else [])\<rparr> \<and>
   ex_open_rows (on_event k t_q source cur s) = ex_open_rows s \<and>
   ex_tq_by_k (on_event k t_q source cur s) = ex_tq_by_k s \<and>
   ex_k_seen_max (on_event k t_q source cur s) = ex_k_seen_max s \<and>
   (session cfg ecfg a now its = Some s' \<longrightarrow>
      set (synced_ks (ex_out s')) \<subseteq> set (data_ks its))"
proof -
  have "set (synced_ks (ex_out s')) \<subseteq> set (data_ks its)"
    if "session cfg ecfg a now its = Some s'"
  proof -
    from that obtain si u s0 where
      i: "ExportSink_init cfg ecfg a now = Inr si" "start si = (Inr u, s0)"
      and s: "s' = stop (run_loop its s0)"
      by (rule session_cases)
    have "data_inv ({} \<union> set (data_ks its)) (run_loop its s0)"
      using started_sink(2) [OF i] by (rule data_inv_run_loop)
    then have "data_inv (set (data_ks its)) s'"
      unfolding s by (simp add: data_inv_stop)
    then show ?thesis by (simp add: data_inv_def)
  qed
  then show ?thesis
    by (simp add: on_event_frame)
qed

theorem event_only_no_row_witness:
  "session scenario_cfg scenario_ecfg scenario_args 0 sparse_run
     = Some (stop (run_loop sparse_run scenario_sink)) \<and>
   ex_markers_writer scenario_sink \<and>
   ex_out (on_event 9 (9 / 100) ''keyboard'' ''TASK_8'' scenario_sink)
     = ex_out scenario_sink @ [MarkerRow 9 ''0.090000'' ''TASK_8'' [] ''keyboard''] \<and>
   9 \<in> set (event_ks sparse_run) \<and> 9 \<notin> set (data_ks sparse_run) \<and>
   9 \<notin> set (synced_ks (ex_out (stop (run_loop sparse_run scenario_sink))))"
proof -
  let ?s = "stop (run_loop sparse_run scenario_sink)"
  note inst = event_only_no_row [of 9 "9 / 100" "''keyboard''" "''TASK_8''" scenario_sink
      scenario_cfg scenario_ecfg scenario_args 0 sparse_run ?s]
  have a: "session scenario_cfg scenario_ecfg scenario_args 0 sparse_run = Some ?s"
    by (rule session_scenario)
  have b: "ex_markers_writer scenario_sink" by (simp add: scenario_sink_eq)
  have c: "9 \<in> set (event_ks sparse_run)" "9 \<notin> set (data_ks sparse_run)"
    by (simp_all add: event_ks_def data_ks_def packets_def sparse_run_def sample_at_def)
  have d: "set (synced_ks (ex_out ?s)) \<subseteq> set (data_ks sparse_run)"
    using inst a by blast
  have e: "ex_out (on_event 9 (9 / 100) ''keyboard'' ''TASK_8'' scenario_sink)
     = ex_out scenario_sink @ [MarkerRow 9 ''0.090000'' ''TASK_8'' [] ''keyboard'']"
    using conjunct1 [OF inst] b by (simp add: fixed6_vals)
  show ?thesis using a b c d e by blast
qed



end
